theory Spec2Isabelle
  imports Complex_Main
begin

section \<open>Strings\<close>

text \<open>
  A Python \<open>str\<close> is a sequence of Unicode code points: \<open>len\<close>, slicing, reversal
  and \<open>startswith\<close> all count code points. The currency symbols of the registry are
  not ASCII (U+20AC, U+00A3), so a string is modelled as the list of its code points.
  \<open>ustr\<close> reads an ASCII literal.
\<close>

type_synonym str = "nat list"

definition ustr :: "string \<Rightarrow> str" where
  "ustr s = map of_char s"

definition is_digit :: "nat \<Rightarrow> bool" where
  "is_digit c = (48 \<le> c \<and> c \<le> 57)"

text \<open>\<open>sep.join(parts)\<close>.\<close>

fun join :: "str \<Rightarrow> str list \<Rightarrow> str" where
  "join sep [] = []"
| "join sep [x] = x"
| "join sep (x # y # ys) = x @ sep @ join sep (y # ys)"

text \<open>\<open>xs[i:j]\<close> for \<open>0 \<le> i \<le> j\<close>: Python clips a slice at the end of the sequence.\<close>

definition slice :: "'a list \<Rightarrow> nat \<Rightarrow> nat \<Rightarrow> 'a list" where
  "slice xs i j = take (j - i) (drop i xs)"

text \<open>\<open>range(0, n, 3)\<close>: the multiples of 3 below \<open>n\<close>.\<close>

definition range3 :: "nat \<Rightarrow> nat list" where
  "range3 n = map (\<lambda>k. 3 * k) [0..<(n + 2) div 3]"

text \<open>\<open>s.split(c)\<close> for a separator of one character: the pieces between its occurrences.\<close>

fun split_on :: "nat \<Rightarrow> str \<Rightarrow> str list" where
  "split_on c [] = [] # []"
| "split_on c (x # xs) =
     (if x = c then [] # split_on c xs
      else (case split_on c xs of
              [] \<Rightarrow> [x] # []
            | p # ps \<Rightarrow> (x # p) # ps))"

text \<open>\<open>s.replace(c, new, 1)\<close> for \<open>c\<close> of one character: only the first occurrence.\<close>

fun replace_first :: "nat \<Rightarrow> str \<Rightarrow> str \<Rightarrow> str" where
  "replace_first c new [] = []"
| "replace_first c new (x # xs) =
     (if x = c then new @ xs else x # replace_first c new xs)"

text \<open>
  \<open>s.lower()\<close>. The ASCII and Latin-1 capitals move by 32. Beyond U+00FF the only code
  points whose lower case contains an ASCII character are U+0130 (to \<open>i\<close> followed by
  U+0307) and U+212A (to \<open>k\<close>); every other one is left as it is here, where Python
  may give another non-ASCII code point. A comparison of the result with an ASCII word
  is therefore decided as Python decides it.
\<close>

definition lower_cp :: "nat \<Rightarrow> str" where
  "lower_cp c =
     (if 65 \<le> c \<and> c \<le> 90 then [c + 32]
      else if 192 \<le> c \<and> c \<le> 222 \<and> c \<noteq> 215 then [c + 32]
      else if c = 304 then [105, 775]
      else if c = 8490 then [107]
      else [c])"

definition lower :: "str \<Rightarrow> str" where
  "lower s = concat (map lower_cp s)"

section \<open>Errors\<close>

text \<open>
  Each constructor is one way the source stops without a formatted string:
  \<^item> \<open>MissingValue\<close>, \<open>InvalidValue\<close>, \<open>InvalidDecimals\<close>: the endpoint's own replies
    "value is required", "value must be numeric", "decimals must be an integer";
  \<^item> \<open>UnknownLocale\<close>, \<open>UnknownStyle\<close>: the two \<open>ValueError\<close>s raised by
    \<open>format_number\<close> (the message text, which quotes the identifier, is not modelled);
  \<^item> \<open>FormatSpecError\<close>: the \<open>ValueError\<close> ("Format specifier missing precision") that
    \<open>str.format\<close> raises on a format specification such as \<open>.-1f\<close>;
  \<^item> \<open>PrecisionError\<close>: the \<open>ValueError\<close> that \<open>str.format\<close> raises on a precision above
    \<open>max_precision\<close> ("precision too big", or "Too many decimal digits in format string"
    when the precision does not fit the host's index type either);
  \<^item> \<open>UnpackError\<close>: the \<open>ValueError\<close> raised by \<open>a, b = parts\<close> when \<open>parts\<close> does
    not have exactly two elements;
  \<^item> \<open>OverflowError\<close>: raised by \<open>float\<close> on an integer beyond the range of a double.
\<close>

datatype error =
    MissingValue
  | InvalidValue
  | InvalidDecimals
  | UnknownLocale
  | UnknownStyle
  | FormatSpecError
  | PrecisionError
  | UnpackError
  | OverflowError

definition unpack2 :: "str list \<Rightarrow> error + str \<times> str" where
  "unpack2 parts = (case parts of [a, b] \<Rightarrow> Inr (a, b) | _ \<Rightarrow> Inl UnpackError)"

section \<open>Floats\<close>

text \<open>
  A Python \<open>float\<close> is an IEEE 754 double: a signed zero, a signed finite number, a signed
  infinity or a NaN. \<open>Finite s m e\<close> stands for \<open>(-1)^s * m * 2^e\<close>. Every finite double has
  this form with \<open>m < 2^53\<close> and \<open>-1074 \<le> e \<le> 971\<close> (\<open>is_double\<close>), and every such triple is a
  double; the functions below are defined on all triples.
\<close>

datatype pyfloat = Finite bool nat int | Infinity bool | NaN

fun is_double :: "pyfloat \<Rightarrow> bool" where
  "is_double (Finite s m e) = (m < 2 ^ 53 \<and> - 1074 \<le> e \<and> e \<le> 971)"
| "is_double (Infinity s) = True"
| "is_double NaN = True"

fun is_finite :: "pyfloat \<Rightarrow> bool" where
  "is_finite (Finite s m e) = True"
| "is_finite (Infinity s) = False"
| "is_finite NaN = False"

text \<open>The magnitude \<open>m * 2^e\<close> as a fraction \<open>numer / denom\<close> of naturals.\<close>

definition numer :: "nat \<Rightarrow> int \<Rightarrow> nat" where
  "numer m e = (if 0 \<le> e then m * 2 ^ nat e else m)"

definition denom :: "int \<Rightarrow> nat" where
  "denom e = (if 0 \<le> e then 1 else 2 ^ nat (- e))"

text \<open>The number a float stands for (0 for the values that are not finite).\<close>

fun fval :: "pyfloat \<Rightarrow> rat" where
  "fval (Finite s m e) =
     (if s then - 1 else 1) * (of_nat (numer m e) / of_nat (denom e))"
| "fval (Infinity s) = 0"
| "fval NaN = 0"

text \<open>\<open>value < 0\<close>: false for both zeros and for NaN.\<close>

fun lt_zero :: "pyfloat \<Rightarrow> bool" where
  "lt_zero (Finite s m e) = (s \<and> 0 < m)"
| "lt_zero (Infinity s) = s"
| "lt_zero NaN = False"

text \<open>\<open>abs(value)\<close> clears the sign.\<close>

fun py_abs :: "pyfloat \<Rightarrow> pyfloat" where
  "py_abs (Finite s m e) = Finite False m e"
| "py_abs (Infinity s) = Infinity False"
| "py_abs NaN = NaN"

section \<open>The host's number formatting\<close>

text \<open>
  \<open>format_plain\<close> and \<open>format_scientific\<close> build a format string and hand the float to
  \<open>str.format\<close>. CPython converts the exact binary value of the double to the requested
  number of decimal digits, correctly rounded: to the nearest, and to the even last digit
  when the exact value lies half way. That conversion is modelled here. The host takes a
  precision up to the largest C \<open>int\<close>, \<open>2^31 - 1\<close>, and rejects a larger one with a
  \<open>ValueError\<close>, whatever the number is. The memory that a long result needs is not
  modelled.
\<close>

definition max_precision :: int where
  "max_precision = 2147483647"

text \<open>The quotient \<open>a / b\<close> rounded to the nearest natural, ties to even.\<close>

definition round_half_even :: "nat \<Rightarrow> nat \<Rightarrow> nat" where
  "round_half_even a b =
     (let k = a div b; r = a mod b
      in if 2 * r < b then k
         else if b < 2 * r then k + 1
         else if even k then k else k + 1)"

text \<open>The decimal digits of a natural, most significant first.\<close>

function dec_digits :: "nat \<Rightarrow> str" where
  "dec_digits n = (if n < 10 then [48 + n] else dec_digits (n div 10) @ [48 + n mod 10])"
  by pat_completeness auto
termination
  by (relation "measure id") auto

declare dec_digits.simps [simp del]

definition zfill :: "nat \<Rightarrow> str \<Rightarrow> str" where
  "zfill w s = replicate (w - length s) 48 @ s"

definition sign_str :: "bool \<Rightarrow> str" where
  "sign_str s = (if s then ustr ''-'' else [])"

text \<open>
  \<open>"{:.<d>f}".format(x)\<close>: fixed-point notation with \<open>d\<close> digits after the point, and no
  point when \<open>d = 0\<close>. A negative \<open>d\<close> gives the specification \<open>.-<n>f\<close>, which the host
  rejects before it looks at the number, as it rejects a \<open>d\<close> above \<open>max_precision\<close>.
  \<open>fixed_units p m e\<close> is the magnitude \<open>m * 2^e\<close> in units of \<open>10^-p\<close>, rounded; its
  quotient and remainder by \<open>10^p\<close> give the digits before and after the point.
\<close>

definition fixed_units :: "nat \<Rightarrow> nat \<Rightarrow> int \<Rightarrow> nat" where
  "fixed_units p m e = round_half_even (numer m e * 10 ^ p) (denom e)"

definition int_digits :: "nat \<Rightarrow> nat \<Rightarrow> int \<Rightarrow> str" where
  "int_digits p m e = dec_digits (fixed_units p m e div 10 ^ p)"

definition frac_digits :: "nat \<Rightarrow> nat \<Rightarrow> int \<Rightarrow> str" where
  "frac_digits p m e = zfill p (dec_digits (fixed_units p m e mod 10 ^ p))"

definition host_fixed :: "int \<Rightarrow> pyfloat \<Rightarrow> error + str" where
  "host_fixed d x =
     (if d < 0 then Inl FormatSpecError
      else if max_precision < d then Inl PrecisionError
      else case x of
          NaN \<Rightarrow> Inr (ustr ''nan'')
        | Infinity s \<Rightarrow> Inr (sign_str s @ ustr ''inf'')
        | Finite s m e \<Rightarrow>
            (let p = nat d
             in Inr (sign_str s @ int_digits p m e @
                     (if p = 0 then [] else ustr ''.'' @ frac_digits p m e))))"

text \<open>
  The decimal exponent of \<open>a / b\<close> for \<open>a, b > 0\<close>: the \<open>x\<close> with
  \<open>10^x \<le> a / b < 10^(x + 1)\<close>. The digit counts of \<open>a\<close> and \<open>b\<close> leave two candidates.
\<close>

definition ge_pow10 :: "nat \<Rightarrow> nat \<Rightarrow> int \<Rightarrow> bool" where
  "ge_pow10 a b x = (if 0 \<le> x then b * 10 ^ nat x \<le> a else b \<le> a * 10 ^ nat (- x))"

definition exp10 :: "nat \<Rightarrow> nat \<Rightarrow> int" where
  "exp10 a b =
     (let x0 = int (length (dec_digits a)) - int (length (dec_digits b))
      in if ge_pow10 a b x0 then x0 else x0 - 1)"

text \<open>\<open>a / b * 10^k\<close> rounded to a natural, for an integer \<open>k\<close>.\<close>

definition round_scaled :: "nat \<Rightarrow> nat \<Rightarrow> int \<Rightarrow> nat" where
  "round_scaled a b k =
     (if 0 \<le> k then round_half_even (a * 10 ^ nat k) b
      else round_half_even a (b * 10 ^ nat (- k)))"

text \<open>
  The \<open>p + 1\<close> significant digits and the decimal exponent of \<open>a / b\<close>; rounding up to
  \<open>10^(p + 1)\<close> moves to the next exponent.
\<close>

definition sci_round :: "nat \<Rightarrow> nat \<Rightarrow> nat \<Rightarrow> nat \<times> int" where
  "sci_round p a b =
     (let x = exp10 a b;
          n = round_scaled a b (int p - x)
      in if n = 10 ^ (p + 1) then (10 ^ p, x + 1) else (n, x))"

definition exp_str :: "int \<Rightarrow> str" where
  "exp_str x =
     ustr ''e'' @ (if x < 0 then ustr ''-'' else ustr ''+'') @ zfill 2 (dec_digits (nat \<bar>x\<bar>))"

definition mantissa_str :: "nat \<Rightarrow> nat \<Rightarrow> str" where
  "mantissa_str p n =
     (let ds = zfill (p + 1) (dec_digits n)
      in take 1 ds @ (if p = 0 then [] else ustr ''.'' @ drop 1 ds))"

text \<open>
  \<open>"{:.<d>e}".format(x)\<close>: one digit, the point, \<open>d\<close> digits, \<open>e\<close>, the sign of the
  exponent and at least two exponent digits. Zero has the digits \<open>0\<close> and the exponent 0.
  The precision is checked as in the fixed-point notation.
\<close>

definition sci_parts :: "nat \<Rightarrow> nat \<Rightarrow> int \<Rightarrow> nat \<times> int" where
  "sci_parts p m e = (if m = 0 then (0, 0) else sci_round p (numer m e) (denom e))"

definition host_sci :: "int \<Rightarrow> pyfloat \<Rightarrow> error + str" where
  "host_sci d x =
     (if d < 0 then Inl FormatSpecError
      else if max_precision < d then Inl PrecisionError
      else case x of
          NaN \<Rightarrow> Inr (ustr ''nan'')
        | Infinity s \<Rightarrow> Inr (sign_str s @ ustr ''inf'')
        | Finite s m e \<Rightarrow>
            (let p = nat d;
                 (n, x) = sci_parts p m e
             in Inr (sign_str s @ mantissa_str p n @ exp_str x)))"

section \<open>Configuration\<close>

record locale_cfg =
  decimal_sep :: str
  thousands_sep :: str
  currency_symbol :: str
  currency_symbol_position :: str
  currency_symbol_space :: bool

definition cfg_US :: locale_cfg where
  "cfg_US = \<lparr> decimal_sep = ustr ''.'', thousands_sep = ustr '','',
     currency_symbol = ustr ''$'', currency_symbol_position = ustr ''before'',
     currency_symbol_space = False \<rparr>"

text \<open>The euro sign is U+20AC, the pound sign U+00A3.\<close>

definition cfg_EU :: locale_cfg where
  "cfg_EU = \<lparr> decimal_sep = ustr '','', thousands_sep = ustr ''.'',
     currency_symbol = [8364], currency_symbol_position = ustr ''after'',
     currency_symbol_space = True \<rparr>"

definition cfg_UK :: locale_cfg where
  "cfg_UK = \<lparr> decimal_sep = ustr ''.'', thousands_sep = ustr '','',
     currency_symbol = [163], currency_symbol_position = ustr ''before'',
     currency_symbol_space = False \<rparr>"

definition LOCALE_ITEMS :: "(str \<times> locale_cfg) list" where
  "LOCALE_ITEMS = [(ustr ''US'', cfg_US), (ustr ''EU'', cfg_EU), (ustr ''UK'', cfg_UK)]"

definition LOCALE_CONFIG :: "str \<rightharpoonup> locale_cfg" where
  "LOCALE_CONFIG = map_of LOCALE_ITEMS"

section \<open>Formatting helpers\<close>

definition group_thousands :: "str \<Rightarrow> str \<Rightarrow> str" where
  "group_thousands integer_part sep =
     (if length integer_part \<le> 3 then integer_part
      else let rv = rev integer_part;
               groups = map (\<lambda>i. slice rv i (i + 3)) (range3 (length rv))
           in join sep (map rev (rev groups)))"

definition format_plain :: "pyfloat \<Rightarrow> locale_cfg \<Rightarrow> int \<Rightarrow> bool \<Rightarrow> error + str" where
  "format_plain val cfg decimals grouping =
     (let sign = (if lt_zero val then ustr ''-'' else []);
          abs_val = py_abs val
      in case host_fixed decimals abs_val of
           Inl err \<Rightarrow> Inl err
         | Inr number_str \<Rightarrow>
             (case (if 46 \<in> set number_str then unpack2 (split_on 46 number_str)
                    else Inr (number_str, [])) of
                Inl err \<Rightarrow> Inl err
              | Inr (int_part, frac_part) \<Rightarrow>
                  (let int_part' = (if grouping
                                    then group_thousands int_part (thousands_sep cfg)
                                    else int_part);
                       result = (if 0 < decimals
                                 then int_part' @ decimal_sep cfg @ frac_part
                                 else int_part')
                   in Inr (sign @ result))))"

definition format_currency :: "pyfloat \<Rightarrow> locale_cfg \<Rightarrow> int \<Rightarrow> error + str" where
  "format_currency val cfg decimals =
     (case format_plain val cfg decimals True of
        Inl err \<Rightarrow> Inl err
      | Inr base0 \<Rightarrow>
          (let (sign, base) = (if take 1 base0 = ustr ''-''
                               then (ustr ''-'', drop 1 base0) else ([], base0));
               symbol = currency_symbol cfg;
               before = (currency_symbol_position cfg = ustr ''before'');
               space = (if currency_symbol_space cfg then ustr '' '' else []);
               formatted_number = (if before then symbol @ space @ base
                                   else base @ space @ symbol)
           in Inr (sign @ formatted_number)))"

definition format_scientific :: "pyfloat \<Rightarrow> locale_cfg \<Rightarrow> int \<Rightarrow> error + str" where
  "format_scientific val cfg digits =
     (case host_sci digits val of
        Inl err \<Rightarrow> Inl err
      | Inr raw \<Rightarrow>
          (if decimal_sep cfg \<noteq> ustr ''.''
           then (case unpack2 (split_on 101 raw) of
                   Inl err \<Rightarrow> Inl err
                 | Inr (mantissa, ex) \<Rightarrow>
                     Inr (replace_first 46 (decimal_sep cfg) mantissa @ ustr ''e'' @ ex))
           else Inr raw))"

definition format_number :: "pyfloat \<Rightarrow> str \<Rightarrow> str \<Rightarrow> int option \<Rightarrow> error + str" where
  "format_number val locale style decimals =
     (case LOCALE_CONFIG locale of
        None \<Rightarrow> Inl UnknownLocale
      | Some cfg \<Rightarrow>
          (let style' = lower style
           in if style' = ustr ''currency''
              then format_currency val cfg (case decimals of None \<Rightarrow> 2 | Some d \<Rightarrow> d)
              else if style' = ustr ''comma'' \<or> style' = ustr ''grouped''
              then format_plain val cfg (case decimals of None \<Rightarrow> 0 | Some d \<Rightarrow> d) True
              else if style' = ustr ''round'' \<or> style' = ustr ''rounded''
              then format_plain val cfg (case decimals of None \<Rightarrow> 0 | Some d \<Rightarrow> d) False
              else if style' = ustr ''sci'' \<or> style' = ustr ''scientific''
              then format_scientific val cfg 3
              else Inl UnknownStyle))"

section \<open>Reading digits back\<close>

text \<open>The number a string of decimal digits stands for.\<close>

definition dec_value :: "str \<Rightarrow> nat" where
  "dec_value ds = foldl (\<lambda>acc c. 10 * acc + (c - 48)) 0 ds"

text \<open>
  The rounding that claim C2 names, written from its words: the magnitude \<open>m * 2^e\<close> in
  units of \<open>10^-p\<close>, rounded to the nearest natural, a tie going away from zero.
\<close>

definition half_away_units :: "nat \<Rightarrow> nat \<Rightarrow> int \<Rightarrow> nat" where
  "half_away_units p m e =
     (let a = numer m e * 10 ^ p; b = denom e
      in if 2 * (a mod b) < b then a div b else a div b + 1)"

section \<open>The host's conversions from text\<close>

text \<open>
  \<open>float(text)\<close> and \<open>int(text)\<close> first bring the text to ASCII: a code point below 127
  stays, a Unicode space beyond ASCII becomes a blank, a Unicode decimal digit becomes the
  ASCII digit of its value, anything else becomes \<open>?\<close> (the host cuts the text after the
  first such character; the text is rejected either way). The decimal digits of Unicode
  14.0, the tables of CPython 3.11, come in runs of ten; \<open>digit_bases\<close> lists the code point
  of the zero of each run.
\<close>

definition digit_bases :: "nat list" where
  "digit_bases =
     [48, 1632, 1776, 1984, 2406, 2534, 2662, 2790, 2918, 3046, 3174, 3302, 3430, 3558, 3664,
      3792, 3872, 4160, 4240, 6112, 6160, 6470, 6608, 6784, 6800, 6992, 7088, 7232, 7248,
      42528, 43216, 43264, 43472, 43504, 43600, 44016, 65296, 66720, 68912, 69734, 69872,
      69942, 70096, 70384, 70736, 70864, 71248, 71360, 71472, 71904, 72016, 72784, 73040,
      73120, 92768, 92864, 93008, 120782, 120792, 120802, 120812, 120822, 123200, 123632,
      125264, 130032]"

definition unicode_spaces :: "nat list" where
  "unicode_spaces =
     [133, 160, 5760, 8192, 8193, 8194, 8195, 8196, 8197, 8198, 8199, 8200, 8201, 8202,
      8232, 8233, 8239, 8287, 12288]"

definition to_ascii :: "nat \<Rightarrow> nat" where
  "to_ascii c =
     (if c < 127 then c
      else if c \<in> set unicode_spaces then 32
      else (case filter (\<lambda>b. b \<le> c \<and> c < b + 10) digit_bases of
              [] \<Rightarrow> 63
            | b # _ \<Rightarrow> 48 + (c - b)))"

text \<open>The ASCII white space that both conversions skip at the two ends.\<close>

definition is_space :: "nat \<Rightarrow> bool" where
  "is_space c = (c = 32 \<or> (9 \<le> c \<and> c \<le> 13))"

definition strip :: "str \<Rightarrow> str" where
  "strip s = rev (dropWhile is_space (rev (dropWhile is_space s)))"

text \<open>\<open>+\<close> or \<open>-\<close> at the front, if any: whether negative, and the rest.\<close>

definition take_sign :: "str \<Rightarrow> bool \<times> str" where
  "take_sign s =
     (case s of
        [] \<Rightarrow> (False, [])
      | c # cs \<Rightarrow> if c = 45 then (True, cs) else if c = 43 then (False, cs) else (False, s))"

text \<open>
  Digits with single underscores between them, as \<open>int\<close> reads them: \<open>None\<close> for an
  underscore at the front, at the end or after another underscore, and for anything that
  is neither a digit nor an underscore. The first argument is the previous character.
\<close>

fun int_digits_of :: "nat \<Rightarrow> str \<Rightarrow> str option" where
  "int_digits_of prev [] = (if prev = 95 then None else Some [])"
| "int_digits_of prev (c # cs) =
     (if c = 95 then (if is_digit prev then int_digits_of c cs else None)
      else if is_digit c then map_option ((#) c) (int_digits_of c cs)
      else None)"

text \<open>
  \<open>int(text)\<close> in base 10: white space, an optional sign, at least one digit, white space.
  The limit that newer hosts put on the number of digits is not modelled.
\<close>

definition py_int :: "str \<Rightarrow> int option" where
  "py_int text =
     (let (neg, body) = take_sign (strip (map to_ascii text))
      in case int_digits_of 0 body of
           None \<Rightarrow> None
         | Some ds \<Rightarrow>
             if ds = [] then None
             else Some (if neg then - int (dec_value ds) else int (dec_value ds)))"

text \<open>
  Rounding a fraction \<open>a / b\<close> to the nearest double, ties to the even significand, as
  the host does for text and for integers. \<open>exp2 a b\<close> is the binary exponent of \<open>a / b\<close>, the
  significand has 53 bits unless the number is subnormal (exponent -1074), and a result
  beyond the largest double is an infinity.
\<close>

function bit_length :: "nat \<Rightarrow> nat" where
  "bit_length n = (if n = 0 then 0 else Suc (bit_length (n div 2)))"
  by pat_completeness auto
termination
  by (relation "measure id") auto

declare bit_length.simps [simp del]

definition ge_pow2 :: "nat \<Rightarrow> nat \<Rightarrow> int \<Rightarrow> bool" where
  "ge_pow2 a b x = (if 0 \<le> x then b * 2 ^ nat x \<le> a else b \<le> a * 2 ^ nat (- x))"

definition exp2 :: "nat \<Rightarrow> nat \<Rightarrow> int" where
  "exp2 a b =
     (let x0 = int (bit_length a) - int (bit_length b)
      in if ge_pow2 a b x0 then x0 else x0 - 1)"

definition round_double :: "bool \<Rightarrow> nat \<Rightarrow> nat \<Rightarrow> pyfloat" where
  "round_double s a b =
     (if a = 0 then Finite s 0 0
      else let e = max (exp2 a b - 52) (- 1074);
               m = (if 0 \<le> e then round_half_even a (b * 2 ^ nat e)
                    else round_half_even (a * 2 ^ nat (- e)) b);
               m' = (if m = 2 ^ 53 then 2 ^ 52 else m);
               e' = (if m = 2 ^ 53 then e + 1 else e)
           in if 971 < e' then Infinity s else Finite s m' e')"

text \<open>
  The text of a float, as the host's \<open>float\<close> reads it. An underscore must stand between
  two digits and is dropped.
\<close>

fun drop_underscores :: "nat \<Rightarrow> str \<Rightarrow> str option" where
  "drop_underscores prev [] = (if prev = 95 then None else Some [])"
| "drop_underscores prev (c # cs) =
     (if c = 95 then (if is_digit prev then drop_underscores c cs else None)
      else if prev = 95 \<and> \<not> is_digit c then None
      else map_option ((#) c) (drop_underscores c cs))"

text \<open>
  A decimal numeral without its sign: digits, an optional point and digits, with at least
  one digit in all, and an optional exponent (\<open>e\<close> or \<open>E\<close>, an optional sign, at least one
  digit). The result is the numerator and the denominator of its value.
\<close>

definition decimal_numeral :: "str \<Rightarrow> (nat \<times> nat) option" where
  "decimal_numeral s =
     (let ip = takeWhile is_digit s;
          r1 = dropWhile is_digit s;
          fp = (if take 1 r1 = ustr ''.'' then takeWhile is_digit (drop 1 r1) else []);
          r2 = (if take 1 r1 = ustr ''.'' then dropWhile is_digit (drop 1 r1) else r1);
          n = dec_value (ip @ fp)
      in if ip @ fp = [] then None
         else if r2 = [] then Some (n, 10 ^ length fp)
         else if take 1 r2 = ustr ''e'' \<or> take 1 r2 = ustr ''E''
         then (let (neg, ds) = take_sign (drop 1 r2)
               in if ds = [] \<or> \<not> list_all is_digit ds then None
                  else if neg then Some (n, 10 ^ length fp * 10 ^ dec_value ds)
                  else Some (n * 10 ^ dec_value ds, 10 ^ length fp))
         else None)"

definition py_float :: "str \<Rightarrow> pyfloat option" where
  "py_float text =
     (case drop_underscores 0 (map to_ascii text) of
        None \<Rightarrow> None
      | Some t \<Rightarrow>
          (let (neg, body) = take_sign (strip t)
           in if lower body = ustr ''inf'' \<or> lower body = ustr ''infinity''
              then Some (Infinity neg)
              else if lower body = ustr ''nan'' then Some NaN
              else (case decimal_numeral body of
                      None \<Rightarrow> None
                    | Some (a, b) \<Rightarrow> Some (round_double neg a b))))"

section \<open>The endpoint\<close>

text \<open>
  What \<open>format_endpoint\<close> reads from a request. A GET request carries texts from the
  query string. A POST request carries the fields of a JSON object: the value is absent
  (or \<open>null\<close>), a text, a float or an integer, the decimals are absent, a text or an
  integer, and locale and style are texts when present. A body that is not a JSON object,
  and fields of other JSON types, are outside this model.
\<close>

datatype value_field = VAbsent | VText str | VFloat pyfloat | VInt int

datatype decimals_field = DAbsent | DText str | DInt int

datatype request =
    Get "str option" "str option" "str option" "str option"
  | Post value_field "str option" "str option" decimals_field

text \<open>
  \<open>float(value)\<close>: a text may fail with \<open>ValueError\<close>, which the endpoint answers with
  "value must be numeric"; an integer beyond the doubles fails with \<open>OverflowError\<close>, which
  the endpoint does not catch.
\<close>

definition to_float :: "value_field \<Rightarrow> error + pyfloat" where
  "to_float v =
     (case v of
        VAbsent \<Rightarrow> Inl MissingValue
      | VText t \<Rightarrow> (case py_float t of None \<Rightarrow> Inl InvalidValue | Some f \<Rightarrow> Inr f)
      | VFloat f \<Rightarrow> Inr f
      | VInt i \<Rightarrow>
          (case round_double (i < 0) (nat \<bar>i\<bar>) 1 of
             Infinity s \<Rightarrow> Inl OverflowError
           | f \<Rightarrow> Inr f))"

text \<open>
  The part of the endpoint after the fields are read (the check for a missing value, the
  conversion, the call of \<open>format_number\<close>). Of the reply only the formatted string or
  the error is modelled, not the echo of the input.
\<close>

definition respond :: "value_field \<Rightarrow> str \<Rightarrow> str \<Rightarrow> int option \<Rightarrow> error + str" where
  "respond v locale style decimals =
     (case to_float v of
        Inl err \<Rightarrow> Inl err
      | Inr f \<Rightarrow> format_number f locale style decimals)"

definition format_endpoint :: "request \<Rightarrow> error + str" where
  "format_endpoint req =
     (case req of
        Get v locale style decimals \<Rightarrow>
          respond (case v of None \<Rightarrow> VAbsent | Some t \<Rightarrow> VText t)
            (case locale of None \<Rightarrow> ustr ''US'' | Some l \<Rightarrow> l)
            (case style of None \<Rightarrow> ustr ''currency'' | Some s \<Rightarrow> s)
            (case decimals of None \<Rightarrow> None | Some t \<Rightarrow> py_int t)
      | Post v locale style decimals \<Rightarrow>
          (case (case decimals of
                   DAbsent \<Rightarrow> Inr None
                 | DInt i \<Rightarrow> Inr (Some i)
                 | DText t \<Rightarrow> (case py_int t of
                                None \<Rightarrow> Inl InvalidDecimals
                              | Some i \<Rightarrow> Inr (Some i))) of
             Inl err \<Rightarrow> Inl err
           | Inr d \<Rightarrow>
               respond v
                 (case locale of None \<Rightarrow> ustr ''US'' | Some l \<Rightarrow> l)
                 (case style of None \<Rightarrow> ustr ''currency'' | Some s \<Rightarrow> s)
                 d))"

section \<open>Grouping\<close>

text \<open>
  The list comprehension of \<open>group_thousands\<close> cuts the reversed string into slices of
  three: the first slice, then the slices of the rest.
\<close>

lemma range3_chunks_Nil: "map (\<lambda>i. slice ([]::'a list) i (i + 3)) (range3 0) = []"
  by (simp add: range3_def)

lemma range3_chunks_step:
  assumes "xs \<noteq> []"
  shows "map (\<lambda>i. slice xs i (i + 3)) (range3 (length xs)) =
         take 3 xs # map (\<lambda>i. slice (drop 3 xs) i (i + 3)) (range3 (length (drop 3 xs)))"
proof -
  have len: "(length xs + 2) div 3 = Suc ((length (drop 3 xs) + 2) div 3)"
    using assms by (cases xs) (auto simp: Suc_diff_le)
  have "[0..<Suc ((length (drop 3 xs) + 2) div 3)] = 0 # map Suc [0..<(length (drop 3 xs) + 2) div 3]"
    by (simp add: upt_conv_Cons map_Suc_upt del: upt_Suc)
  then show ?thesis
    unfolding range3_def len
    by (simp add: slice_def o_def add.commute del: upt_Suc)
qed

lemma chunks_concat:
  "concat (map (\<lambda>i. slice xs i (i + 3)) (range3 (length xs))) = xs"
proof (induction xs rule: length_induct)
  case (1 xs)
  show ?case
  proof (cases "xs = []")
    case True
    then show ?thesis by (simp add: range3_def)
  next
    case False
    have "length (drop 3 xs) < length xs" using False by (cases xs) auto
    with 1 have "concat (map (\<lambda>i. slice (drop 3 xs) i (i + 3)) (range3 (length (drop 3 xs)))) = drop 3 xs"
      by blast
    then show ?thesis
      using range3_chunks_step [OF False] by simp
  qed
qed

lemma chunks_shape:
  "xs \<noteq> [] \<Longrightarrow>
     map (\<lambda>i. slice xs i (i + 3)) (range3 (length xs)) \<noteq> [] \<and>
     (\<forall>c \<in> set (butlast (map (\<lambda>i. slice xs i (i + 3)) (range3 (length xs)))). length c = 3) \<and>
     1 \<le> length (last (map (\<lambda>i. slice xs i (i + 3)) (range3 (length xs)))) \<and>
     length (last (map (\<lambda>i. slice xs i (i + 3)) (range3 (length xs)))) \<le> 3"
proof (induction xs rule: length_induct)
  case (1 xs)
  let ?ch = "\<lambda>ys::'a list. map (\<lambda>i. slice ys i (i + 3)) (range3 (length ys))"
  have step: "?ch xs = take 3 xs # ?ch (drop 3 xs)"
    using range3_chunks_step [OF \<open>xs \<noteq> []\<close>] .
  show ?case
  proof (cases "drop 3 xs = []")
    case True
    then have "?ch (drop 3 xs) = []" by (simp add: range3_def)
    with step have "?ch xs = [take 3 xs]" by simp
    moreover have "1 \<le> length (take 3 xs)" using \<open>xs \<noteq> []\<close> by (cases xs) auto
    ultimately show ?thesis by simp
  next
    case False
    have "length (drop 3 xs) < length xs" using \<open>xs \<noteq> []\<close> by (cases xs) auto
    with 1 False have ih: "?ch (drop 3 xs) \<noteq> [] \<and>
       (\<forall>c \<in> set (butlast (?ch (drop 3 xs))). length c = 3) \<and>
       1 \<le> length (last (?ch (drop 3 xs))) \<and> length (last (?ch (drop 3 xs))) \<le> 3"
      by blast
    have t3: "length (take 3 xs) = 3" using False by simp
    from ih have ne': "?ch (drop 3 xs) \<noteq> []" by blast
    have b: "butlast (?ch xs) = take 3 xs # butlast (?ch (drop 3 xs))"
      by (subst step) (use ne' in \<open>simp only: butlast.simps if_False\<close>)
    have l: "last (?ch xs) = last (?ch (drop 3 xs))"
      by (subst step) (use ne' in \<open>simp only: last.simps if_False\<close>)
    have n: "?ch xs \<noteq> []" by (subst step) blast
    show ?thesis
      unfolding b l using n ih t3 by (simp only: set_simps ball_simps) blast
  qed
qed

lemma group_thousands_long:
  assumes len: "3 < length s"
  shows "\<exists>gs. group_thousands s sep = join sep gs \<and> concat gs = s \<and> gs \<noteq> [] \<and>
            1 \<le> length (hd gs) \<and> length (hd gs) \<le> 3 \<and>
            (\<forall>g \<in> set (tl gs). length g = 3)"
proof -
  let ?cs = "map (\<lambda>i. slice (rev s) i (i + 3)) (range3 (length (rev s)))"
  let ?gs = "map rev (rev ?cs)"
  from len have ne: "rev s \<noteq> []" by auto
  have g: "group_thousands s sep = join sep ?gs"
    using len by (simp add: group_thousands_def Let_def)
  have c: "concat ?gs = s"
    using chunks_concat [of "rev s"] rev_concat [of ?cs] by (metis rev_rev_ident)
  from chunks_shape [OF ne] have cs_ne: "?cs \<noteq> []"
    and bl: "\<forall>c \<in> set (butlast ?cs). length c = 3"
    and l1: "1 \<le> length (last ?cs)" and l3: "length (last ?cs) \<le> 3"
    by blast+
  from cs_ne have gne: "?gs \<noteq> []" by simp
  from cs_ne have hd_eq: "hd ?gs = rev (last ?cs)"
    by (simp add: hd_map hd_rev)
  have tl_eq: "tl ?gs = map rev (rev (butlast ?cs))"
    by (simp add: map_tl [symmetric] butlast_rev [symmetric] rev_swap) (metis butlast_rev rev_rev_ident)
  have tl3: "\<forall>g \<in> set (tl ?gs). length g = 3"
    unfolding tl_eq using bl by auto
  show ?thesis
    using g c gne hd_eq l1 l3 tl3 by (intro exI [of _ ?gs]) simp
qed





lemma join_set: "set (join sep gs) \<subseteq> set (concat gs) \<union> set sep"
  by (induction sep gs rule: join.induct) auto

lemma group_thousands_set: "set (group_thousands s sep) \<subseteq> set s \<union> set sep"
proof (cases "3 < length s")
  case True
  from group_thousands_long [OF True, of sep] obtain gs where
    "group_thousands s sep = join sep gs" "concat gs = s"
    by blast
  then show ?thesis using join_set [of sep gs] by simp
next
  case False
  then show ?thesis by (simp add: group_thousands_def)
qed



section \<open>Digits and the fixed-point form\<close>

lemma dec_digits_ne: "dec_digits n \<noteq> []"
  by (subst dec_digits.simps) simp

lemma dec_digits_digit: "c \<in> set (dec_digits n) \<Longrightarrow> is_digit c"
proof (induction n arbitrary: c rule: dec_digits.induct)
  case (1 n)
  show ?case
  proof (cases "n < 10")
    case True
    with 1(2) show ?thesis
      by (subst (asm) dec_digits.simps) (simp add: is_digit_def)
  next
    case False
    from 1(2) have "c \<in> set (dec_digits (n div 10)) \<or> c = 48 + n mod 10"
      by (subst (asm) dec_digits.simps) (use False in auto)
    then show ?thesis
    proof
      assume "c \<in> set (dec_digits (n div 10))"
      with 1(1) False show ?thesis by simp
    next
      assume "c = 48 + n mod 10"
      moreover have "n mod 10 < 10" by simp
      ultimately show ?thesis unfolding is_digit_def by linarith
    qed
  qed
qed

lemma dec_digits_length_le: "n < 10 ^ k \<Longrightarrow> 0 < k \<Longrightarrow> length (dec_digits n) \<le> k"
proof (induction n arbitrary: k rule: dec_digits.induct)
  case (1 n)
  show ?case
  proof (cases "n < 10")
    case True
    then have "dec_digits n = [48 + n]" by (subst dec_digits.simps) simp
    with 1(3) show ?thesis by simp
  next
    case False
    from 1(3) obtain j where k: "k = Suc j" by (cases k) auto
    have j0: "0 < j"
    proof (rule ccontr)
      assume "\<not> 0 < j"
      with k 1(2) False show False by simp
    qed
    from 1(2) k have "n div 10 < 10 ^ j"
      by (simp add: less_mult_imp_div_less mult.commute)
    with 1(1) [OF False _ j0] have "length (dec_digits (n div 10)) \<le> j" by simp
    moreover have "dec_digits n = dec_digits (n div 10) @ [48 + n mod 10]"
      by (subst dec_digits.simps) (use False in simp)
    ultimately show ?thesis using k by simp
  qed
qed

lemma dec_digits_length_ge: "10 ^ k \<le> n \<Longrightarrow> k < length (dec_digits n)"
proof (induction n arbitrary: k rule: dec_digits.induct)
  case (1 n)
  show ?case
  proof (cases "n < 10")
    case True
    have "k = 0"
    proof (cases k)
      case (Suc j)
      have "1 \<le> (10::nat) ^ j" by simp
      with Suc 1(2) True show ?thesis by simp
    qed simp
    then show ?thesis using dec_digits_ne [of n] by (cases "dec_digits n") auto
  next
    case False
    have eq: "dec_digits n = dec_digits (n div 10) @ [48 + n mod 10]"
      by (subst dec_digits.simps) (use False in simp)
    show ?thesis
    proof (cases k)
      case 0
      then show ?thesis using eq by simp
    next
      case (Suc j)
      with 1(2) have "10 ^ j \<le> n div 10"
        by (simp add: less_eq_div_iff_mult_less_eq mult.commute)
      with 1(1) [OF False] have "j < length (dec_digits (n div 10))" by simp
      then show ?thesis using eq Suc by simp
    qed
  qed
qed

lemma dec_digits_0: "dec_digits 0 = [48]"
  by (subst dec_digits.simps) simp

lemma zfill_digits_length:
  assumes "n < 10 ^ k" "0 < k"
  shows "length (zfill k (dec_digits n)) = k"
  using dec_digits_length_le [OF assms] by (simp add: zfill_def)

lemma zfill_digit:
  "c \<in> set (zfill k (dec_digits n)) \<Longrightarrow> is_digit c"
proof -
  assume "c \<in> set (zfill k (dec_digits n))"
  then have "c = 48 \<or> c \<in> set (dec_digits n)"
    by (auto simp: zfill_def)
  then show ?thesis
    using dec_digits_digit [of c n] by (auto simp: is_digit_def)
qed

lemma ustr_simps:
  "ustr [] = []" "ustr (c # cs) = of_char c # ustr cs"
  by (simp_all add: ustr_def)

lemma split_on_none: "c \<notin> set b \<Longrightarrow> split_on c b = [b]"
  by (induction b) auto

lemma split_on_two: "c \<notin> set a \<Longrightarrow> c \<notin> set b \<Longrightarrow> split_on c (a @ c # b) = [a, b]"
  by (induction a) (auto simp: split_on_none)

lemma int_digits_digit: "c \<in> set (int_digits p m e) \<Longrightarrow> is_digit c"
  unfolding int_digits_def by (rule dec_digits_digit)

lemma frac_digits_digit: "c \<in> set (frac_digits p m e) \<Longrightarrow> is_digit c"
  unfolding frac_digits_def by (rule zfill_digit)

lemma int_digits_ne: "int_digits p m e \<noteq> []"
  unfolding int_digits_def by (rule dec_digits_ne)

lemma frac_digits_length: "0 < p \<Longrightarrow> length (frac_digits p m e) = p"
  unfolding frac_digits_def by (intro zfill_digits_length) simp_all

lemma not_digit_46: "is_digit c \<Longrightarrow> c \<noteq> 46"
  by (auto simp: is_digit_def)

lemma format_plain_finite:
  assumes "0 \<le> d" and "d \<le> max_precision"
  shows "format_plain (Finite s m e) cfg d g =
     Inr ((if s \<and> 0 < m then ustr ''-'' else []) @
          (if g then group_thousands (int_digits (nat d) m e) (thousands_sep cfg)
           else int_digits (nat d) m e) @
          (if 0 < d then decimal_sep cfg @ frac_digits (nat d) m e else []))"
proof -
  have i46: "46 \<notin> set (int_digits (nat d) m e)"
    using int_digits_digit not_digit_46 by blast
  have f46: "46 \<notin> set (frac_digits (nat d) m e)"
    using frac_digits_digit not_digit_46 by blast
  show ?thesis
  proof (cases "d = 0")
    case True
    have h: "host_fixed 0 (Finite False m e) = Inr (int_digits 0 m e)"
      by (simp add: host_fixed_def sign_str_def max_precision_def)
    have "46 \<notin> set (int_digits 0 m e)" using i46 True by simp
    then show ?thesis
      unfolding True by (simp add: format_plain_def h)
  next
    case False
    with assms have pos: "0 < d" by simp
    then have h: "host_fixed d (Finite False m e) =
        Inr (int_digits (nat d) m e @ 46 # frac_digits (nat d) m e)"
      using assms(2) by (simp add: host_fixed_def sign_str_def ustr_simps Let_def)
    show ?thesis
      using pos by (simp add: format_plain_def h split_on_two [OF i46 f46] unpack2_def)
  qed
qed

lemma format_plain_infinite:
  assumes "0 \<le> d" and "d \<le> max_precision"
  shows "format_plain (Infinity s) cfg d g =
     Inr ((if s then ustr ''-'' else []) @ ustr ''inf'' @ (if 0 < d then decimal_sep cfg else []))"
  using assms
  by (simp add: format_plain_def host_fixed_def sign_str_def ustr_simps group_thousands_def)

lemma format_plain_nan:
  assumes "0 \<le> d" and "d \<le> max_precision"
  shows "format_plain NaN cfg d g =
     Inr (ustr ''nan'' @ (if 0 < d then decimal_sep cfg else []))"
  using assms
  by (simp add: format_plain_def host_fixed_def sign_str_def ustr_simps group_thousands_def)

lemma format_plain_negative_decimals:
  "d < 0 \<Longrightarrow> format_plain v cfg d g = Inl FormatSpecError"
  by (simp add: format_plain_def host_fixed_def)

lemma format_plain_big_decimals:
  "max_precision < d \<Longrightarrow> format_plain v cfg d g = Inl PrecisionError"
  by (simp add: format_plain_def host_fixed_def max_precision_def)

lemma format_plain_returns:
  "0 \<le> d \<Longrightarrow> d \<le> max_precision \<Longrightarrow> \<exists>r. format_plain v cfg d g = Inr r"
  by (cases v) (simp_all add: format_plain_finite format_plain_infinite format_plain_nan)

lemma format_plain_Inr_range:
  assumes "format_plain v cfg d g = Inr out"
  shows "0 \<le> d \<and> d \<le> max_precision"
proof (rule ccontr)
  assume "\<not> (0 \<le> d \<and> d \<le> max_precision)"
  then have "d < 0 \<or> max_precision < d" by auto
  then show False
    using assms format_plain_negative_decimals [of d v cfg g]
      format_plain_big_decimals [of d v cfg g]
    by auto
qed

lemma host_sci_finite:
  "0 \<le> d \<Longrightarrow> d \<le> max_precision \<Longrightarrow> host_sci d (Finite s m e) =
     Inr (sign_str s @ mantissa_str (nat d) (fst (sci_parts (nat d) m e)) @
          exp_str (snd (sci_parts (nat d) m e)))"
  by (simp add: host_sci_def Let_def split_beta)

lemmas plain_eval =
  format_plain_finite max_precision_def int_digits_def frac_digits_def fixed_units_def round_half_even_def
  numer_def denom_def dec_digits.simps zfill_def group_thousands_def slice_def range3_def
  upt_rec ustr_def Let_def

lemmas sci_eval =
  host_sci_finite max_precision_def sci_parts_def sci_round_def exp10_def ge_pow10_def round_scaled_def
  round_half_even_def exp_str_def mantissa_str_def sign_str_def
  numer_def denom_def dec_digits.simps zfill_def ustr_def Let_def

lemmas dispatch_eval =
  format_number_def LOCALE_CONFIG_def LOCALE_ITEMS_def lower_def lower_cp_def
  cfg_US_def cfg_EU_def cfg_UK_def ustr_def

section \<open>Currency\<close>

lemma py_abs_idem: "py_abs (py_abs v) = py_abs v"
  by (cases v) simp_all

lemma lt_zero_abs: "\<not> lt_zero (py_abs v)"
  by (cases v) simp_all

lemma format_plain_sign:
  assumes "lt_zero v"
  shows "format_plain v cfg d g =
     (case format_plain (py_abs v) cfg d g of Inl err \<Rightarrow> Inl err | Inr r \<Rightarrow> Inr (ustr ''-'' @ r))"
  using assms
  by (simp add: format_plain_def py_abs_idem lt_zero_abs Let_def split: sum.splits prod.splits)

lemma format_currency_negative:
  assumes "lt_zero v" and "format_plain (py_abs v) cfg d True = Inr mag"
  shows "format_currency v cfg d =
     Inr (ustr ''-'' @
          (if currency_symbol_position cfg = ustr ''before''
           then currency_symbol cfg @ (if currency_symbol_space cfg then ustr '' '' else []) @ mag
           else mag @ (if currency_symbol_space cfg then ustr '' '' else []) @ currency_symbol cfg))"
  using assms
  by (simp add: format_currency_def format_plain_sign ustr_simps Let_def)


lemma format_currency_returns:
  "0 \<le> d \<Longrightarrow> d \<le> max_precision \<Longrightarrow> \<exists>r. format_currency v cfg d = Inr r"
  using format_plain_returns [of d v cfg True]
  by (auto simp: format_currency_def Let_def split: prod.splits)

lemma format_currency_negative_decimals:
  "d < 0 \<Longrightarrow> format_currency v cfg d = Inl FormatSpecError"
  by (simp add: format_currency_def format_plain_negative_decimals)

lemma format_currency_big_decimals:
  "max_precision < d \<Longrightarrow> format_currency v cfg d = Inl PrecisionError"
  by (simp add: format_currency_def format_plain_big_decimals)




section \<open>Signed zero\<close>

lemma frac_digits_zero:
  assumes "fixed_units p m e = 0" and "0 < p"
  shows "frac_digits p m e = replicate p 48"
proof -
  from assms(2) obtain q where p: "p = Suc q" by (cases p) auto
  have "frac_digits p m e = replicate q 48 @ [48]"
    using assms(1) p by (simp add: frac_digits_def zfill_def dec_digits_0)
  then show ?thesis
    using p by (simp add: replicate_append_same)
qed

lemma int_digits_zero:
  assumes "fixed_units p m e = 0"
  shows "int_digits p m e = ustr ''0''"
  using assms by (simp add: int_digits_def dec_digits_0 ustr_def)

lemma round_half_even_zero:
  assumes "round_half_even a b = 0" and "0 < b"
  shows "a < b"
proof -
  from assms(1) have "a div b = 0"
    by (auto simp: round_half_even_def Let_def split: if_splits)
  with assms(2) show ?thesis by (simp add: div_eq_0_iff)
qed

text \<open>
  On a double a magnitude other than zero rounds to zero only at fewer than 1074
  decimals, far below the largest precision of the host.
\<close>

lemma fixed_units_zero_double:
  assumes "is_double (Finite s m e)" and "0 < m" and "fixed_units p m e = 0"
  shows "int p \<le> max_precision"
proof -
  have b: "0 < denom e" by (simp add: denom_def)
  from round_half_even_zero [OF assms(3) [unfolded fixed_units_def] b]
  have lt: "numer m e * 10 ^ p < denom e" .
  show ?thesis
  proof (cases "0 \<le> e")
    case True
    have "1 \<le> m * 2 ^ nat e * 10 ^ p" using assms(2) by simp
    with lt True show ?thesis by (simp add: numer_def denom_def)
  next
    case False
    with lt have l: "m * 10 ^ p < 2 ^ nat (- e)" by (simp add: numer_def denom_def)
    have "(2::nat) ^ p \<le> 10 ^ p" by (rule power_mono) simp_all
    also have "\<dots> \<le> m * 10 ^ p" using assms(2) by simp
    finally have "(2::nat) ^ p \<le> m * 10 ^ p" .
    from this l have "(2::nat) ^ p < 2 ^ nat (- e)" by (rule le_less_trans)
    then have "p < nat (- e)" by simp
    moreover from assms(1) have "- 1074 \<le> e" by simp
    then have "nat (- e) \<le> 1074" by linarith
    ultimately show ?thesis by (simp add: max_precision_def)
  qed
qed

text \<open>
  Claim C10. The sign is taken from the value before it is rounded. A finite negative
  value whose magnitude rounds to zero at the requested decimals (\<open>fixed_units = 0\<close>)
  is rendered as a zero with a minus sign, with or without grouping, and the currency
  renderer puts the same sign before the symbol. This holds for every double, and for
  every number of decimals up to the largest precision of the host. The double nearest
  to -0.4 (\<open>-3602879701896397 * 2^-53\<close>) gives \<open>-0\<close> and \<open>-$0\<close> at 0 decimals. Negative
  zero is not less than zero and gives \<open>0\<close>.
\<close>

theorem format_plain_signed_zero:
  assumes "lt_zero (Finite s m e)" and "0 \<le> d" and "fixed_units (nat d) m e = 0"
    and "d \<le> max_precision \<or> is_double (Finite s m e)"
  shows "format_plain (Finite s m e) cfg d g =
           Inr (ustr ''-0'' @ (if 0 < d then decimal_sep cfg @ replicate (nat d) 48 else [])) \<and>
         format_currency (Finite s m e) cfg d =
           Inr (ustr ''-'' @
                (if currency_symbol_position cfg = ustr ''before''
                 then currency_symbol cfg @
                      (if currency_symbol_space cfg then ustr '' '' else []) @
                      ustr ''0'' @ (if 0 < d then decimal_sep cfg @ replicate (nat d) 48 else [])
                 else ustr ''0'' @ (if 0 < d then decimal_sep cfg @ replicate (nat d) 48 else []) @
                      (if currency_symbol_space cfg then ustr '' '' else []) @
                      currency_symbol cfg)) \<and>
         format_plain (Finite True 3602879701896397 (- 53)) cfg_US 0 False = Inr (ustr ''-0'') \<and>
         format_currency (Finite True 3602879701896397 (- 53)) cfg_US 0 = Inr (ustr ''-$0'') \<and>
         \<not> lt_zero (Finite True 0 0) \<and>
         format_plain (Finite True 0 0) cfg_US 0 False = Inr (ustr ''0'')"
proof -
  let ?tail = "if 0 < d then decimal_sep cfg @ replicate (nat d) 48 else []"
  have mx: "d \<le> max_precision"
  proof (cases "d \<le> max_precision")
    case False
    with assms(4) have "is_double (Finite s m e)" by blast
    from fixed_units_zero_double [OF this _ assms(3)] assms(1,2) show ?thesis by simp
  qed simp
  have grp: "group_thousands [48] (thousands_sep cfg) = [48]"
    by (simp add: group_thousands_def)
  have fr: "0 < d \<Longrightarrow> frac_digits (nat d) m e = replicate (nat d) 48"
    using frac_digits_zero [OF assms(3)] by simp
  have plain: "format_plain (Finite s m e) cfg d g = Inr (ustr ''-0'' @ ?tail)"
    using assms(1) fr
    by (simp add: format_plain_finite [OF assms(2) mx] int_digits_zero [OF assms(3)] grp ustr_def)
  have mag: "format_plain (py_abs (Finite s m e)) cfg d True = Inr (ustr ''0'' @ ?tail)"
    using fr
    by (simp add: format_plain_finite [OF assms(2) mx] int_digits_zero [OF assms(3)] grp ustr_def)
  have cur: "format_currency (Finite s m e) cfg d =
           Inr (ustr ''-'' @
                (if currency_symbol_position cfg = ustr ''before''
                 then currency_symbol cfg @
                      (if currency_symbol_space cfg then ustr '' '' else []) @
                      ustr ''0'' @ ?tail
                 else ustr ''0'' @ ?tail @
                      (if currency_symbol_space cfg then ustr '' '' else []) @
                      currency_symbol cfg))"
    using format_currency_negative [OF assms(1) mag] by simp
  have e1: "format_plain (Finite True 3602879701896397 (- 53)) cfg_US 0 False = Inr (ustr ''-0'')"
    by (simp add: cfg_US_def plain_eval)
  have e2: "format_currency (Finite True 3602879701896397 (- 53)) cfg_US 0 = Inr (ustr ''-$0'')"
    by (simp add: cfg_US_def format_currency_def plain_eval)
  have e3: "\<not> lt_zero (Finite True 0 0)" by simp
  have e4: "format_plain (Finite True 0 0) cfg_US 0 False = Inr (ustr ''0'')"
    by (simp add: cfg_US_def plain_eval)
  from plain cur e1 e2 e3 e4 show ?thesis by blast
qed

theorem format_plain_signed_zero_witness:
  "lt_zero (Finite True 1 (- 5)) \<and> (0::int) \<le> 1 \<and> fixed_units (nat 1) 1 (- 5) = 0 \<and>
   is_double (Finite True 1 (- 5)) \<and>
   format_plain (Finite True 1 (- 5)) cfg_EU 1 True = Inr (ustr ''-0,0'') \<and>
   format_currency (Finite True 1 (- 5)) cfg_EU 1 = Inr (ustr ''-0,0 '' @ [8364])"
proof -
  have l: "lt_zero (Finite True 1 (- 5))" by simp
  have d: "(0::int) \<le> 1" by simp
  have z: "fixed_units (nat 1) 1 (- 5) = 0"
    by (simp add: fixed_units_def round_half_even_def numer_def denom_def)
  have b: "is_double (Finite True 1 (- 5))" by simp
  then have b': "1 \<le> max_precision \<or> is_double (Finite True 1 (- 5))" by blast
  from format_plain_signed_zero [OF l d z b', of cfg_EU True] l d z b
  show ?thesis by (simp add: cfg_EU_def ustr_def)
qed

section \<open>Shape of the plain output\<close>

lemma LOCALE_CONFIG_cases:
  "LOCALE_CONFIG locale = Some cfg \<Longrightarrow> cfg = cfg_US \<or> cfg = cfg_EU \<or> cfg = cfg_UK"
  by (auto simp: LOCALE_CONFIG_def LOCALE_ITEMS_def split: if_splits)

lemma LOCALE_CONFIG_seps:
  assumes "LOCALE_CONFIG locale = Some cfg"
  shows "\<exists>c t. decimal_sep cfg = [c] \<and> thousands_sep cfg = [t] \<and> c \<noteq> t \<and>
           \<not> is_digit c \<and> \<not> is_digit t \<and> c \<noteq> 45 \<and> t \<noteq> 45"
  using LOCALE_CONFIG_cases [OF assms]
  by (auto simp: cfg_US_def cfg_EU_def cfg_UK_def ustr_def is_digit_def)

lemma count_list_0: "c \<notin> set xs \<Longrightarrow> count_list xs c = 0"
  by (induction xs) auto

text \<open>
  Claim C5. For a supported locale and a finite value the plain renderer returns a string
  for every number of decimals from 0 to the largest precision of the host, and whenever
  it returns a string, that string is: an optional \<open>-\<close>; the digits of the integer part
  (at least one), passed through the grouping function with the thousands separator of
  the locale when grouping is on and left as they are when it is off; and, exactly when
  \<open>decimals > 0\<close>, the decimal separator of the locale followed by exactly \<open>decimals\<close>
  digits, with nothing between them. The output has no other character, and the decimal
  separator occurs once when \<open>decimals > 0\<close> and not at all otherwise.
\<close>

theorem format_plain_shape:
  assumes "LOCALE_CONFIG locale = Some cfg"
  shows "(0 \<le> d \<and> d \<le> max_precision \<longrightarrow>
            (\<exists>out. format_plain (Finite s m e) cfg d g = Inr out)) \<and>
         (\<forall>out. format_plain (Finite s m e) cfg d g = Inr out \<longrightarrow>
           0 \<le> d \<and>
           out = (if lt_zero (Finite s m e) then ustr ''-'' else []) @
                 (if g then group_thousands (int_digits (nat d) m e) (thousands_sep cfg)
                  else int_digits (nat d) m e) @
                 (if 0 < d then decimal_sep cfg @ frac_digits (nat d) m e else []) \<and>
           int_digits (nat d) m e \<noteq> [] \<and>
           (\<forall>c \<in> set (int_digits (nat d) m e). is_digit c) \<and>
           (0 < d \<longrightarrow> length (frac_digits (nat d) m e) = nat d \<and>
                     (\<forall>c \<in> set (frac_digits (nat d) m e). is_digit c)) \<and>
           (\<forall>c \<in> set out. is_digit c \<or> c = 45 \<or> (0 < d \<and> c \<in> set (decimal_sep cfg)) \<or>
                            (g \<and> c \<in> set (thousands_sep cfg))) \<and>
           count_list out (hd (decimal_sep cfg)) = (if 0 < d then 1 else 0))"
proof -
  let ?I = "int_digits (nat d) m e"
  let ?F = "frac_digits (nat d) m e"
  let ?G = "if g then group_thousands ?I (thousands_sep cfg) else ?I"
  let ?S = "if lt_zero (Finite s m e) then ustr ''-'' else []"
  let ?T = "if 0 < d then decimal_sep cfg @ ?F else []"
  let ?out = "?S @ ?G @ ?T"
  from LOCALE_CONFIG_seps [OF assms(1)] obtain c t where
    seps: "decimal_sep cfg = [c]" "thousands_sep cfg = [t]" "c \<noteq> t"
      "\<not> is_digit c" "\<not> is_digit t" "c \<noteq> 45" "t \<noteq> 45"
    by blast
  have ret: "0 \<le> d \<and> d \<le> max_precision \<longrightarrow>
            (\<exists>out. format_plain (Finite s m e) cfg d g = Inr out)"
    using format_plain_returns [of d "Finite s m e" cfg g] by blast
  have ine: "?I \<noteq> []" by (rule int_digits_ne)
  have idig: "\<forall>c \<in> set ?I. is_digit c" using int_digits_digit by blast
  have fdig: "\<forall>c \<in> set ?F. is_digit c" using frac_digits_digit by blast
  have flen: "0 < d \<longrightarrow> length ?F = nat d" by (simp add: frac_digits_length)
  have gset: "set ?G \<subseteq> set ?I \<union> (if g then set (thousands_sep cfg) else {})"
    using group_thousands_set [of ?I "thousands_sep cfg"] by auto
  have sset: "set ?S \<subseteq> {45}" by (auto simp: ustr_def)
  have chars: "\<forall>x \<in> set ?out. is_digit x \<or> x = 45 \<or> (0 < d \<and> x \<in> set (decimal_sep cfg)) \<or>
                            (g \<and> x \<in> set (thousands_sep cfg))"
  proof
    fix x assume "x \<in> set ?out"
    then consider "x \<in> set ?S" | "x \<in> set ?G" | "x \<in> set ?T" by auto
    then show "is_digit x \<or> x = 45 \<or> (0 < d \<and> x \<in> set (decimal_sep cfg)) \<or>
                            (g \<and> x \<in> set (thousands_sep cfg))"
    proof cases
      case 1
      with sset show ?thesis by auto
    next
      case 2
      with gset have "x \<in> set ?I \<or> (g \<and> x \<in> set (thousands_sep cfg))"
        by (auto split: if_splits)
      with idig show ?thesis by auto
    next
      case 3
      then have "0 < d \<and> (x \<in> set (decimal_sep cfg) \<or> x \<in> set ?F)"
        by (auto split: if_splits)
      with fdig show ?thesis by auto
    qed
  qed
  have cS: "count_list ?S c = 0"
    using seps(6) by (simp add: ustr_def)
  have "c \<notin> set ?G"
  proof
    assume "c \<in> set ?G"
    with gset have "c \<in> set ?I \<or> c \<in> set (thousands_sep cfg)" by (auto split: if_splits)
    with idig seps show False by auto
  qed
  then have cG: "count_list ?G c = 0" by (rule count_list_0)
  have "c \<notin> set ?F" using fdig seps(4) by auto
  then have cF: "count_list ?F c = 0" by (rule count_list_0)
  have cT: "count_list ?T c = (if 0 < d then 1 else 0)"
    using cF seps(1) by simp
  have cnt: "count_list ?out (hd (decimal_sep cfg)) = (if 0 < d then 1 else 0)"
    using cS cG cT seps(1) by (simp only: count_list_append list.sel)
  have shape: "\<forall>out. format_plain (Finite s m e) cfg d g = Inr out \<longrightarrow>
           0 \<le> d \<and> out = ?out \<and> ?I \<noteq> [] \<and> (\<forall>c \<in> set ?I. is_digit c) \<and>
           (0 < d \<longrightarrow> length ?F = nat d \<and> (\<forall>c \<in> set ?F. is_digit c)) \<and>
           (\<forall>c \<in> set out. is_digit c \<or> c = 45 \<or> (0 < d \<and> c \<in> set (decimal_sep cfg)) \<or>
                            (g \<and> c \<in> set (thousands_sep cfg))) \<and>
           count_list out (hd (decimal_sep cfg)) = (if 0 < d then 1 else 0)"
  proof (intro allI impI)
    fix out
    assume o: "format_plain (Finite s m e) cfg d g = Inr out"
    from format_plain_Inr_range [OF o] have r: "0 \<le> d" "d \<le> max_precision" by blast+
    from o have eq: "out = ?out" by (simp add: format_plain_finite [OF r])
    from r(1) eq ine idig fdig flen chars cnt
    show "0 \<le> d \<and> out = ?out \<and> ?I \<noteq> [] \<and> (\<forall>c \<in> set ?I. is_digit c) \<and>
           (0 < d \<longrightarrow> length ?F = nat d \<and> (\<forall>c \<in> set ?F. is_digit c)) \<and>
           (\<forall>c \<in> set out. is_digit c \<or> c = 45 \<or> (0 < d \<and> c \<in> set (decimal_sep cfg)) \<or>
                            (g \<and> c \<in> set (thousands_sep cfg))) \<and>
           count_list out (hd (decimal_sep cfg)) = (if 0 < d then 1 else 0)"
      by blast
  qed
  from ret shape show ?thesis by blast
qed

theorem format_plain_shape_witness:
  "LOCALE_CONFIG (ustr ''EU'') = Some cfg_EU \<and> (0::int) \<le> 2 \<and> 2 \<le> max_precision \<and>
   format_plain (Finite True 1234567 0) cfg_EU 2 True = Inr (ustr ''-1.234.567,00'') \<and>
   count_list (ustr ''-1.234.567,00'') (hd (decimal_sep cfg_EU)) = 1"
proof -
  have l: "LOCALE_CONFIG (ustr ''EU'') = Some cfg_EU"
    by (simp add: LOCALE_CONFIG_def LOCALE_ITEMS_def ustr_def)
  have d: "(0::int) \<le> 2" "2 \<le> max_precision" by (simp_all add: max_precision_def)
  have i: "int_digits (nat 2) 1234567 0 = ustr ''1234567''"
    by (simp add: plain_eval)
  have f: "frac_digits (nat 2) 1234567 0 = ustr ''00''"
    by (simp add: plain_eval)
  have g: "group_thousands (ustr ''1234567'') (thousands_sep cfg_EU) = ustr ''1.234.567''"
    by (simp add: cfg_EU_def plain_eval)
  from format_plain_shape [OF l, of 2 True 1234567 0 True] d
  obtain out where o: "format_plain (Finite True 1234567 0) cfg_EU 2 True = Inr out"
    by blast
  with format_plain_shape [OF l, of 2 True 1234567 0 True]
  have o2: "out = (if lt_zero (Finite True 1234567 0) then ustr ''-'' else []) @
                 (if True then group_thousands (int_digits (nat 2) 1234567 0) (thousands_sep cfg_EU)
                  else int_digits (nat 2) 1234567 0) @
                 (if (0::int) < 2 then decimal_sep cfg_EU @ frac_digits (nat 2) 1234567 0 else [])"
    and o3: "count_list out (hd (decimal_sep cfg_EU)) = (if (0::int) < 2 then 1 else 0)"
    by blast+
  from o2 have "out = ustr ''-1.234.567,00''"
    unfolding i f g by (simp add: cfg_EU_def ustr_def)
  with o o3 l d show ?thesis by simp
qed

section \<open>Rounding to nearest, ties to even\<close>

lemma round_half_even_cases:
  fixes a b :: nat
  assumes b: "0 < b"
  defines "q \<equiv> (of_nat a / of_nat b :: rat)"
  shows "(2 * (a mod b) < b \<longrightarrow> round_half_even a b = a div b \<and> \<bar>of_nat (a div b) - q\<bar> < 1 / 2) \<and>
         (b < 2 * (a mod b) \<longrightarrow> round_half_even a b = a div b + 1 \<and> \<bar>of_nat (a div b + 1) - q\<bar> < 1 / 2) \<and>
         (2 * (a mod b) = b \<longrightarrow> even (round_half_even a b) \<and>
             \<bar>of_nat (round_half_even a b) - q\<bar> = 1 / 2)"
proof -
  let ?k = "a div b" and ?r = "a mod b"
  have "a = ?k * b + ?r" by simp
  then have "(of_nat a :: rat) = of_nat ?k * of_nat b + of_nat ?r"
    by (metis of_nat_add of_nat_mult)
  then have q: "q = of_nat ?k + of_nat ?r / of_nat b"
    using b by (simp add: q_def field_simps)
  have bpos: "(0::rat) < of_nat b" using b by simp
  have c1: "2 * ?r < b \<Longrightarrow> \<bar>of_nat ?k - q\<bar> < 1 / 2"
  proof -
    assume "2 * ?r < b"
    then have "(2::rat) * of_nat ?r < of_nat b"
      by (metis of_nat_less_iff of_nat_mult of_nat_numeral)
    then have "(of_nat ?r :: rat) / of_nat b < 1 / 2"
      using bpos by (simp add: field_simps)
    moreover have "(0::rat) \<le> of_nat ?r / of_nat b" by simp
    ultimately show ?thesis unfolding q by linarith
  qed
  have c2: "b < 2 * ?r \<Longrightarrow> \<bar>of_nat (?k + 1) - q\<bar> < 1 / 2"
  proof -
    assume "b < 2 * ?r"
    then have "(of_nat b :: rat) < 2 * of_nat ?r"
      by (metis of_nat_less_iff of_nat_mult of_nat_numeral)
    then have 1: "1 / 2 < (of_nat ?r :: rat) / of_nat b"
      using bpos by (simp add: field_simps)
    have "?r < b" using b by simp
    then have "(of_nat ?r :: rat) < of_nat b" by (simp only: of_nat_less_iff)
    then have 2: "(of_nat ?r :: rat) / of_nat b < 1"
      using bpos by (simp add: field_simps)
    have "(of_nat (?k + 1) :: rat) = of_nat ?k + 1" by simp
    with 1 2 show ?thesis unfolding q by linarith
  qed
  have c3: "2 * ?r = b \<Longrightarrow> even (round_half_even a b) \<and> \<bar>of_nat (round_half_even a b) - q\<bar> = 1 / 2"
  proof -
    assume t: "2 * ?r = b"
    then have "(2::rat) * of_nat ?r = of_nat b"
      by (metis of_nat_mult of_nat_numeral)
    then have h: "(of_nat ?r :: rat) / of_nat b = 1 / 2"
      using bpos by (simp add: field_simps)
    have k1: "(of_nat (?k + 1) :: rat) = of_nat ?k + 1" by simp
    show ?thesis
    proof (cases "even ?k")
      case True
      then have "round_half_even a b = ?k"
        using t by (simp add: round_half_even_def Let_def)
      with True h show ?thesis unfolding q by simp
    next
      case False
      then have "round_half_even a b = ?k + 1"
        using t by (simp add: round_half_even_def Let_def)
      with False h k1 show ?thesis unfolding q by simp
    qed
  qed
  have r1: "2 * ?r < b \<Longrightarrow> round_half_even a b = ?k"
    by (simp add: round_half_even_def Let_def)
  have r2: "b < 2 * ?r \<Longrightarrow> round_half_even a b = ?k + 1"
    by (simp add: round_half_even_def Let_def)
  from c1 c2 c3 r1 r2 show ?thesis by blast
qed

lemma round_half_even_nearest:
  assumes "0 < b"
  shows "\<bar>of_nat (round_half_even a b) - (of_nat a / of_nat b :: rat)\<bar> \<le> 1 / 2"
proof -
  consider "2 * (a mod b) < b" | "b < 2 * (a mod b)" | "2 * (a mod b) = b" by linarith
  then show ?thesis
    using round_half_even_cases [OF assms, of a] by cases auto
qed

lemma round_half_even_tie:
  assumes "0 < b" and "\<bar>of_nat (round_half_even a b) - (of_nat a / of_nat b :: rat)\<bar> = 1 / 2"
  shows "even (round_half_even a b)"
proof -
  consider "2 * (a mod b) < b" | "b < 2 * (a mod b)" | "2 * (a mod b) = b" by linarith
  then show ?thesis
    using round_half_even_cases [OF assms(1), of a] assms(2) by cases auto
qed

section \<open>The decimal exponent\<close>

lemma ge_pow10_iff:
  assumes "0 < b"
  shows "ge_pow10 a b x \<longleftrightarrow> power_int (10::rat) x \<le> of_nat a / of_nat b"
proof (cases "0 \<le> x")
  case True
  have bpos: "(0::rat) < of_nat b" using assms by simp
  have "b * 10 ^ nat x \<le> a \<longleftrightarrow> (of_nat (b * 10 ^ nat x) :: rat) \<le> of_nat a"
    by (simp only: of_nat_le_iff)
  also have "\<dots> \<longleftrightarrow> (10::rat) ^ nat x \<le> of_nat a / of_nat b"
    using bpos by (simp add: field_simps)
  finally show ?thesis using True by (simp add: ge_pow10_def power_int_def)
next
  case False
  have bpos: "(0::rat) < of_nat b" using assms by simp
  have "b \<le> a * 10 ^ nat (- x) \<longleftrightarrow> (of_nat b :: rat) \<le> of_nat (a * 10 ^ nat (- x))"
    by (simp only: of_nat_le_iff)
  also have "\<dots> \<longleftrightarrow> inverse ((10::rat) ^ nat (- x)) \<le> of_nat a / of_nat b"
    using bpos by (simp add: field_simps)
  finally show ?thesis using False
    by (simp add: ge_pow10_def power_int_def power_one_over inverse_eq_divide)
qed

lemma round_scaled_nearest:
  assumes "0 < b"
  shows "\<bar>of_nat (round_scaled a b k) - (of_nat a / of_nat b :: rat) * power_int 10 k\<bar> \<le> 1 / 2"
proof (cases "0 \<le> k")
  case True
  have "(of_nat (a * 10 ^ nat k) / of_nat b :: rat) = of_nat a / of_nat b * 10 ^ nat k"
    by simp
  with round_half_even_nearest [OF assms, of "a * 10 ^ nat k"] True
  show ?thesis by (simp add: round_scaled_def power_int_def)
next
  case False
  have "(of_nat a / of_nat (b * 10 ^ nat (- k)) :: rat) = of_nat a / of_nat b * inverse (10 ^ nat (- k))"
    by (simp add: field_simps)
  moreover have "0 < b * 10 ^ nat (- k)" using assms by simp
  ultimately show ?thesis
    using round_half_even_nearest [of "b * 10 ^ nat (- k)" a] False
    by (simp add: round_scaled_def power_int_def power_one_over inverse_eq_divide)
qed

lemma dec_digits_bounds:
  assumes "0 < n"
  shows "10 ^ (length (dec_digits n) - 1) \<le> n \<and> n < 10 ^ length (dec_digits n)"
proof -
  let ?l = "length (dec_digits n)"
  have l0: "0 < ?l" using dec_digits_ne [of n] by simp
  have up: "n < 10 ^ ?l"
  proof (rule ccontr)
    assume "\<not> n < 10 ^ ?l"
    then have "10 ^ ?l \<le> n" by simp
    from dec_digits_length_ge [OF this] show False by simp
  qed
  have lo: "10 ^ (?l - 1) \<le> n"
  proof (cases "?l - 1 = 0")
    case True
    then show ?thesis using assms by simp
  next
    case False
    show ?thesis
    proof (rule ccontr)
      assume "\<not> 10 ^ (?l - 1) \<le> n"
      then have "n < 10 ^ (?l - 1)" by simp
      from dec_digits_length_le [OF this] False have "?l \<le> ?l - 1" by simp
      with l0 show False by linarith
    qed
  qed
  from lo up show ?thesis by blast
qed

lemma exp10_bounds:
  assumes a: "0 < a" and b: "0 < b"
  shows "power_int (10::rat) (exp10 a b) \<le> of_nat a / of_nat b \<and>
         of_nat a / of_nat b < power_int (10::rat) (exp10 a b + 1)"
proof -
  let ?la = "length (dec_digits a)" and ?lb = "length (dec_digits b)"
  let ?q = "of_nat a / of_nat b :: rat"
  let ?x0 = "int ?la - int ?lb"
  have la0: "0 < ?la" and lb0: "0 < ?lb"
    using dec_digits_ne [of a] dec_digits_ne [of b] by simp_all
  have apos: "(0::rat) < of_nat a" and bpos: "(0::rat) < of_nat b" using a b by simp_all
  from dec_digits_bounds [OF a] have "10 ^ (?la - 1) \<le> a" "a < 10 ^ ?la" by blast+
  then have A: "(10::rat) ^ (?la - 1) \<le> of_nat a" "(of_nat a :: rat) < 10 ^ ?la"
    by (metis of_nat_le_iff of_nat_power of_nat_numeral,
        metis of_nat_less_iff of_nat_power of_nat_numeral)
  from dec_digits_bounds [OF b] have "10 ^ (?lb - 1) \<le> b" "b < 10 ^ ?lb" by blast+
  then have B: "(10::rat) ^ (?lb - 1) \<le> of_nat b" "(of_nat b :: rat) < 10 ^ ?lb"
    by (metis of_nat_le_iff of_nat_power of_nat_numeral,
        metis of_nat_less_iff of_nat_power of_nat_numeral)
  have pa: "power_int (10::rat) (int ?la) = 10 ^ ?la" by simp
  have pb: "power_int (10::rat) (int ?lb) = 10 ^ ?lb" by simp
  have pa1: "power_int (10::rat) (int ?la - 1) = 10 ^ (?la - 1)"
    using la0 by (metis of_nat_1 of_nat_diff power_int_of_nat Suc_leI One_nat_def)
  have pb1: "power_int (10::rat) (int ?lb - 1) = 10 ^ (?lb - 1)"
    using lb0 by (metis of_nat_1 of_nat_diff power_int_of_nat Suc_leI One_nat_def)
  have lo_eq: "power_int (10::rat) (?x0 - 1) = 10 ^ (?la - 1) / 10 ^ ?lb"
  proof -
    have e: "?x0 - 1 = (int ?la - 1) - int ?lb" by simp
    have "power_int (10::rat) ((int ?la - 1) - int ?lb) =
          power_int 10 (int ?la - 1) / power_int 10 (int ?lb)"
      by (rule power_int_diff) simp
    then show ?thesis by (simp only: e pa1 pb)
  qed
  have hi_eq: "power_int (10::rat) (?x0 + 1) = 10 ^ ?la / 10 ^ (?lb - 1)"
  proof -
    have e: "?x0 + 1 = int ?la - (int ?lb - 1)" by simp
    have "power_int (10::rat) (int ?la - (int ?lb - 1)) =
          power_int 10 (int ?la) / power_int 10 (int ?lb - 1)"
      by (rule power_int_diff) simp
    then show ?thesis by (simp only: e pa pb1)
  qed
  have lo: "power_int (10::rat) (?x0 - 1) < ?q"
  proof -
    have "(10::rat) ^ (?la - 1) / 10 ^ ?lb \<le> of_nat a / 10 ^ ?lb"
      using A(1) by (simp add: divide_right_mono)
    also have "\<dots> < of_nat a / of_nat b"
      using B(2) apos bpos by (simp add: divide_strict_left_mono)
    finally show ?thesis unfolding lo_eq .
  qed
  have hi: "?q < power_int (10::rat) (?x0 + 1)"
  proof -
    have p: "(0::rat) < 10 ^ (?lb - 1)" by simp
    have "of_nat a / of_nat b < (10::rat) ^ ?la / of_nat b"
      using A(2) bpos by (simp add: divide_strict_right_mono)
    also have "\<dots> \<le> 10 ^ ?la / 10 ^ (?lb - 1)"
      using B(1) p by (intro frac_le) simp_all
    finally show ?thesis unfolding hi_eq .
  qed
  show ?thesis
  proof (cases "ge_pow10 a b ?x0")
    case True
    then have "exp10 a b = ?x0" by (simp add: exp10_def Let_def)
    with True hi show ?thesis using ge_pow10_iff [OF b] by simp
  next
    case False
    then have e: "exp10 a b = ?x0 - 1" by (simp add: exp10_def Let_def)
    from False have "?q < power_int (10::rat) ?x0" using ge_pow10_iff [OF b] by simp
    with lo e show ?thesis by simp
  qed
qed

section \<open>The scientific form\<close>

lemma nat_ge_of_rat:
  fixes n k :: nat
  assumes "(of_nat k :: rat) - 1 / 2 \<le> of_nat n"
  shows "k \<le> n"
proof (rule ccontr)
  assume "\<not> k \<le> n"
  then have "n + 1 \<le> k" by simp
  then have "(of_nat (n + 1) :: rat) \<le> of_nat k" by (simp only: of_nat_le_iff)
  with assms show False by simp
qed

lemma nat_le_of_rat:
  fixes n k :: nat
  assumes "(of_nat n :: rat) < of_nat k + 1 / 2"
  shows "n \<le> k"
proof (rule ccontr)
  assume "\<not> n \<le> k"
  then have "k + 1 \<le> n" by simp
  then have "(of_nat (k + 1) :: rat) \<le> of_nat n" by (simp only: of_nat_le_iff)
  with assms show False by simp
qed

lemma sci_round_bounds:
  assumes a: "0 < a" and b: "0 < b"
  shows "10 ^ p \<le> fst (sci_round p a b) \<and> fst (sci_round p a b) < 10 ^ (p + 1)"
proof -
  let ?x = "exp10 a b"
  let ?q = "of_nat a / of_nat b :: rat"
  let ?k = "int p - ?x"
  let ?n = "round_scaled a b ?k"
  let ?v = "?q * power_int 10 ?k"
  from exp10_bounds [OF a b] have lo: "power_int 10 ?x \<le> ?q" and hi: "?q < power_int 10 (?x + 1)"
    by blast+
  have kpos: "(0::rat) < power_int 10 ?k" by simp
  have "power_int (10::rat) ?x * power_int 10 ?k = power_int 10 (?x + ?k)"
    by (rule power_int_add [symmetric]) simp
  moreover have "?x + ?k = int p" by simp
  ultimately have e1: "power_int (10::rat) ?x * power_int 10 ?k = 10 ^ p"
    by (simp only: power_int_of_nat)
  have "power_int (10::rat) (?x + 1) * power_int 10 ?k = power_int 10 (?x + 1 + ?k)"
    by (rule power_int_add [symmetric]) simp
  moreover have "?x + 1 + ?k = int (p + 1)" by simp
  ultimately have e2: "power_int (10::rat) (?x + 1) * power_int 10 ?k = 10 ^ (p + 1)"
    by (simp only: power_int_of_nat)
  have vlo: "(10::rat) ^ p \<le> ?v"
    using lo kpos e1 by (metis mult_right_mono less_imp_le)
  have vhi: "?v < (10::rat) ^ (p + 1)"
    using hi kpos e2 by (metis mult_strict_right_mono)
  from round_scaled_nearest [OF b, of a ?k]
  have near: "\<bar>of_nat ?n - ?v\<bar> \<le> 1 / 2" .
  have c1: "(of_nat (10 ^ p) :: rat) = 10 ^ p" by simp
  have c2: "(of_nat (10 ^ (p + 1)) :: rat) = 10 ^ (p + 1)" by simp
  have nlo: "10 ^ p \<le> ?n"
    by (rule nat_ge_of_rat) (use near vlo c1 in linarith)
  have nhi: "?n \<le> 10 ^ (p + 1)"
    by (rule nat_le_of_rat) (use near vhi c2 in linarith)
  show ?thesis
  proof (cases "?n = 10 ^ (p + 1)")
    case True
    then have "fst (sci_round p a b) = 10 ^ p"
      by (simp add: sci_round_def Let_def)
    then show ?thesis by simp
  next
    case False
    then have "fst (sci_round p a b) = ?n"
      by (simp add: sci_round_def Let_def)
    with nlo nhi False show ?thesis by simp
  qed
qed

lemma sci_parts_bound: "fst (sci_parts p m e) < 10 ^ (p + 1)"
proof (cases "m = 0")
  case True
  then show ?thesis by (simp add: sci_parts_def)
next
  case False
  then have "0 < numer m e" by (simp add: numer_def)
  moreover have "0 < denom e" by (simp add: denom_def)
  ultimately show ?thesis
    using sci_round_bounds [of "numer m e" "denom e" p] False by (simp add: sci_parts_def)
qed

lemma mantissa_str_shape:
  assumes "n < 10 ^ (p + 1)" and "0 < p"
  shows "\<exists>d0 F. mantissa_str p n = d0 # 46 # F \<and> is_digit d0 \<and> length F = p \<and>
           (\<forall>c \<in> set F. is_digit c)"
proof -
  let ?ds = "zfill (p + 1) (dec_digits n)"
  have len: "length ?ds = p + 1"
    using assms(1) by (intro zfill_digits_length) simp_all
  have dig: "\<forall>c \<in> set ?ds. is_digit c" using zfill_digit by blast
  from len obtain d0 F where ds: "?ds = d0 # F" by (cases ?ds) auto
  with len have lf: "length F = p" by simp
  from ds dig have "is_digit d0" "\<forall>c \<in> set F. is_digit c"
    by (metis list.set_intros(1), metis list.set_intros(2))
  moreover have "mantissa_str p n = d0 # 46 # F"
    using assms(2) ds by (simp add: mantissa_str_def Let_def ustr_def)
  ultimately show ?thesis using lf by blast
qed

lemma exp_str_shape:
  "\<exists>sg E. exp_str x = 101 # sg # E \<and> (sg = 43 \<or> sg = 45) \<and> 2 \<le> length E \<and>
          (\<forall>c \<in> set E. is_digit c)"
proof -
  let ?E = "zfill 2 (dec_digits (nat \<bar>x\<bar>))"
  have "2 \<le> length ?E" by (simp add: zfill_def)
  moreover have "\<forall>c \<in> set ?E. is_digit c" using zfill_digit by blast
  moreover have "exp_str x = 101 # (if x < 0 then 45 else 43) # ?E"
    by (simp add: exp_str_def ustr_def)
  ultimately show ?thesis by (intro exI [of _ "if x < 0 then 45 else 43"] exI [of _ ?E]) simp
qed

lemma replace_first_here:
  "c \<notin> set a \<Longrightarrow> replace_first c new (a @ c # b) = a @ new @ b"
  by (induction a) auto

lemma host_sci_shape:
  "\<exists>d0 F sg E. host_sci 3 (Finite s m e) = Inr (sign_str s @ d0 # 46 # F @ 101 # sg # E) \<and>
      is_digit d0 \<and> length F = 3 \<and> (\<forall>c \<in> set F. is_digit c) \<and>
      (sg = 43 \<or> sg = 45) \<and> 2 \<le> length E \<and> (\<forall>c \<in> set E. is_digit c)"
proof -
  let ?n = "fst (sci_parts 3 m e)" and ?x = "snd (sci_parts 3 m e)"
  have "?n < 10 ^ (3 + 1)" by (rule sci_parts_bound)
  from mantissa_str_shape [OF this] obtain d0 F where
    mn: "mantissa_str 3 ?n = d0 # 46 # F" "is_digit d0" "length F = 3" "\<forall>c \<in> set F. is_digit c"
    by auto
  from exp_str_shape [of ?x] obtain sg E where
    ex: "exp_str ?x = 101 # sg # E" "sg = 43 \<or> sg = 45" "2 \<le> length E" "\<forall>c \<in> set E. is_digit c"
    by blast
  have "host_sci 3 (Finite s m e) = Inr (sign_str s @ mantissa_str 3 ?n @ exp_str ?x)"
    using host_sci_finite [of 3 s m e] by (simp add: max_precision_def)
  with mn ex show ?thesis by auto
qed

lemma format_scientific_finite:
  assumes raw: "host_sci 3 (Finite s m e) = Inr (sign_str s @ d0 # 46 # F @ 101 # sg # E)"
    and d0: "is_digit d0" and F: "\<forall>c \<in> set F. is_digit c"
    and sg: "sg = 43 \<or> sg = 45" and E: "\<forall>c \<in> set E. is_digit c"
    and sep: "decimal_sep cfg \<noteq> ustr ''.''"
  shows "format_scientific (Finite s m e) cfg 3 =
           Inr (sign_str s @ d0 # decimal_sep cfg @ F @ 101 # sg # E)"
proof -
  let ?M = "sign_str s @ d0 # 46 # F" and ?X = "sg # E"
  have s_set: "set (sign_str s) \<subseteq> {45}" by (auto simp: sign_str_def ustr_def)
  have m101: "101 \<notin> set ?M"
    using s_set d0 F by (auto simp: is_digit_def)
  have x101: "101 \<notin> set ?X"
    using sg E by (auto simp: is_digit_def)
  have "sign_str s @ d0 # 46 # F @ 101 # sg # E = ?M @ 101 # ?X" by simp
  then have sp: "split_on 101 (sign_str s @ d0 # 46 # F @ 101 # sg # E) = [?M, ?X]"
    using split_on_two [OF m101 x101] by simp
  have h46: "46 \<notin> set (sign_str s @ [d0])"
    using s_set d0 by (auto simp: is_digit_def)
  have "?M = (sign_str s @ [d0]) @ 46 # F" by simp
  then have rp: "replace_first 46 (decimal_sep cfg) ?M = (sign_str s @ [d0]) @ decimal_sep cfg @ F"
    using replace_first_here [OF h46] by simp
  show ?thesis
    using sep by (simp add: format_scientific_def raw sp unpack2_def rp ustr_simps)
qed

text \<open>
  Claim C6. For a finite value the host's scientific form with 3 digits is: the sign, one
  digit, the point, three digits, \<open>e\<close>, the sign of the exponent and at least two exponent
  digits. When the decimal separator of the locale is not the point, the scientific
  renderer gives the same string with the separator in the place of the point, and all
  other characters, the exponent marker, its sign and its digits among them, stay as
  they are. When the separator is the point the host's string is returned. The double
  nearest to 1234.5678 gives \<open>1,235e+03\<close> in the locale EU.
\<close>

theorem format_scientific_separator:
  "(\<exists>d0 F sg E.
      host_sci 3 (Finite s m e) =
        Inr (sign_str s @ [d0] @ ustr ''.'' @ F @ ustr ''e'' @ sg @ E) \<and>
      is_digit d0 \<and> length F = 3 \<and> (\<forall>c \<in> set F. is_digit c) \<and>
      (sg = ustr ''+'' \<or> sg = ustr ''-'') \<and> 2 \<le> length E \<and> (\<forall>c \<in> set E. is_digit c) \<and>
      (decimal_sep cfg \<noteq> ustr ''.'' \<longrightarrow>
         format_scientific (Finite s m e) cfg 3 =
           Inr (sign_str s @ [d0] @ decimal_sep cfg @ F @ ustr ''e'' @ sg @ E))) \<and>
   (decimal_sep cfg = ustr ''.'' \<longrightarrow>
      format_scientific (Finite s m e) cfg 3 = host_sci 3 (Finite s m e)) \<and>
   format_number (Finite False 5429686605511341 (- 42)) (ustr ''EU'') (ustr ''scientific'') None =
     Inr (ustr ''1,235e+03'')"
proof -
  from host_sci_shape [of s m e] obtain d0 F sg E where
    h: "host_sci 3 (Finite s m e) = Inr (sign_str s @ d0 # 46 # F @ 101 # sg # E)"
      "is_digit d0" "length F = 3" "\<forall>c \<in> set F. is_digit c"
      "sg = 43 \<or> sg = 45" "2 \<le> length E" "\<forall>c \<in> set E. is_digit c"
    by blast
  have raw: "host_sci 3 (Finite s m e) =
        Inr (sign_str s @ [d0] @ ustr ''.'' @ F @ ustr ''e'' @ [sg] @ E)"
    using h(1) by (simp add: ustr_def)
  have sgs: "[sg] = ustr ''+'' \<or> [sg] = ustr ''-''"
    using h(5) by (auto simp: ustr_def)
  have swap: "decimal_sep cfg \<noteq> ustr ''.'' \<longrightarrow>
         format_scientific (Finite s m e) cfg 3 =
           Inr (sign_str s @ [d0] @ decimal_sep cfg @ F @ ustr ''e'' @ [sg] @ E)"
  proof
    assume "decimal_sep cfg \<noteq> ustr ''.''"
    from format_scientific_finite [OF h(1) h(2) h(4) h(5) h(7) this]
    show "format_scientific (Finite s m e) cfg 3 =
           Inr (sign_str s @ [d0] @ decimal_sep cfg @ F @ ustr ''e'' @ [sg] @ E)"
      by (simp add: ustr_def)
  qed
  have first: "\<exists>d0 F sg E.
      host_sci 3 (Finite s m e) =
        Inr (sign_str s @ [d0] @ ustr ''.'' @ F @ ustr ''e'' @ sg @ E) \<and>
      is_digit d0 \<and> length F = 3 \<and> (\<forall>c \<in> set F. is_digit c) \<and>
      (sg = ustr ''+'' \<or> sg = ustr ''-'') \<and> 2 \<le> length E \<and> (\<forall>c \<in> set E. is_digit c) \<and>
      (decimal_sep cfg \<noteq> ustr ''.'' \<longrightarrow>
         format_scientific (Finite s m e) cfg 3 =
           Inr (sign_str s @ [d0] @ decimal_sep cfg @ F @ ustr ''e'' @ sg @ E))"
    using raw h(2,3,4,6,7) sgs swap by blast
  have same: "decimal_sep cfg = ustr ''.'' \<longrightarrow>
      format_scientific (Finite s m e) cfg 3 = host_sci 3 (Finite s m e)"
    by (auto simp: format_scientific_def split: sum.splits)
  have ex: "format_number (Finite False 5429686605511341 (- 42)) (ustr ''EU'') (ustr ''scientific'') None =
     Inr (ustr ''1,235e+03'')"
    by (simp add: dispatch_eval format_scientific_def sci_eval unpack2_def)
  from first same ex show ?thesis by blast
qed

theorem format_scientific_separator_witness:
  "decimal_sep cfg_EU \<noteq> ustr ''.'' \<and>
   host_sci 3 (Finite True 2469 (- 1)) = Inr (ustr ''-1.234e+03'') \<and>
   format_scientific (Finite True 2469 (- 1)) cfg_EU 3 = Inr (ustr ''-1,234e+03'') \<and>
   decimal_sep cfg_US = ustr ''.'' \<and>
   format_scientific (Finite True 2469 (- 1)) cfg_US 3 = Inr (ustr ''-1.234e+03'')"
proof -
  have n: "decimal_sep cfg_EU \<noteq> ustr ''.''" by (simp add: cfg_EU_def ustr_def)
  have u: "decimal_sep cfg_US = ustr ''.''" by (simp add: cfg_US_def)
  have r: "host_sci 3 (Finite True 2469 (- 1)) = Inr (ustr ''-1.234e+03'')"
    by (simp add: sci_eval)
  from format_scientific_separator [of True 2469 "- 1" cfg_EU] n r
  have e: "format_scientific (Finite True 2469 (- 1)) cfg_EU 3 = Inr (ustr ''-1,234e+03'')"
    by (auto simp: sign_str_def ustr_def cfg_EU_def)
  from format_scientific_separator [of True 2469 "- 1" cfg_US] u r
  have s: "format_scientific (Finite True 2469 (- 1)) cfg_US 3 = Inr (ustr ''-1.234e+03'')"
    by simp
  from n r e u s show ?thesis by blast
qed

section \<open>The rounding of the plain renderer\<close>

lemma dec_value_snoc: "dec_value (ds @ [c]) = 10 * dec_value ds + (c - 48)"
  by (simp add: dec_value_def)

lemma dec_value_digits: "dec_value (dec_digits n) = n"
proof (induction n rule: dec_digits.induct)
  case (1 n)
  show ?case
  proof (cases "n < 10")
    case True
    then show ?thesis
      by (subst dec_digits.simps) (simp add: dec_value_def)
  next
    case False
    with 1 have ih: "dec_value (dec_digits (n div 10)) = n div 10" by simp
    have "dec_digits n = dec_digits (n div 10) @ [48 + n mod 10]"
      by (subst dec_digits.simps) (use False in simp)
    then show ?thesis by (simp add: dec_value_snoc ih)
  qed
qed

lemma dec_value_zeros: "dec_value (replicate k 48 @ ds) = dec_value ds"
proof -
  have "foldl (\<lambda>acc c. 10 * acc + (c - 48)) 0 (replicate k 48) = (0::nat)"
    by (induction k) simp_all
  then show ?thesis by (simp add: dec_value_def)
qed

lemma dec_value_int_frac:
  "dec_value (int_digits p m e) * 10 ^ p + dec_value (frac_digits p m e) = fixed_units p m e"
  using div_mult_mod_eq [of "fixed_units p m e" "10 ^ p"]
  by (simp add: int_digits_def frac_digits_def zfill_def dec_value_zeros dec_value_digits)

lemma fval_scaled:
  "\<bar>fval (Finite s m e)\<bar> * 10 ^ p = of_nat (numer m e * 10 ^ p) / of_nat (denom e)"
  by (simp add: abs_mult)

text \<open>
  Claim C2, as the code has it. For a finite value the plain renderer (without grouping)
  returns a string for every number of decimals from 0 to the largest precision of the
  host, and whenever it returns a string, that string is the sign, the digits of the
  integer part and, when \<open>decimals > 0\<close>, the decimal separator and exactly \<open>decimals\<close>
  digits. Read as a number of units of \<open>10^-decimals\<close>, these digits are \<open>fixed_units\<close>:
  a natural at most one half away from the exact magnitude of the double in these units,
  and even when it is exactly one half away. So the rounding is to the nearest, and a tie
  goes to the even last digit, not away from zero. The double nearest to 2.345 is
  \<open>5280470563091907 * 2^-51\<close>, above 2.345, and gives \<open>2.35\<close> at 2 decimals.
\<close>

theorem format_plain_rounding:
  "(0 \<le> d \<and> d \<le> max_precision \<longrightarrow>
      (\<exists>out. format_plain (Finite s m e) cfg d False = Inr out)) \<and>
   (\<forall>out. format_plain (Finite s m e) cfg d False = Inr out \<longrightarrow>
      0 \<le> d \<and>
      out = (if lt_zero (Finite s m e) then ustr ''-'' else []) @
            int_digits (nat d) m e @
            (if 0 < d then decimal_sep cfg @ frac_digits (nat d) m e else []) \<and>
      (0 < d \<longrightarrow> length (frac_digits (nat d) m e) = nat d) \<and>
      dec_value (int_digits (nat d) m e) * 10 ^ nat d + dec_value (frac_digits (nat d) m e) =
        fixed_units (nat d) m e \<and>
      \<bar>of_nat (fixed_units (nat d) m e) - \<bar>fval (Finite s m e)\<bar> * 10 ^ nat d\<bar> \<le> 1 / 2 \<and>
      (\<bar>of_nat (fixed_units (nat d) m e) - \<bar>fval (Finite s m e)\<bar> * 10 ^ nat d\<bar> = 1 / 2 \<longrightarrow>
         even (fixed_units (nat d) m e))) \<and>
   format_plain (Finite False 5280470563091907 (- 51)) cfg_US 2 False = Inr (ustr ''2.35'')"
proof -
  have b: "0 < denom e" by (simp add: denom_def)
  have ret: "0 \<le> d \<and> d \<le> max_precision \<longrightarrow>
      (\<exists>out. format_plain (Finite s m e) cfg d False = Inr out)"
    using format_plain_returns [of d "Finite s m e" cfg False] by blast
  have len: "0 < d \<longrightarrow> length (frac_digits (nat d) m e) = nat d"
    by (simp add: frac_digits_length)
  have near: "\<bar>of_nat (fixed_units (nat d) m e) - \<bar>fval (Finite s m e)\<bar> * 10 ^ nat d\<bar> \<le> 1 / 2"
    unfolding fval_scaled fixed_units_def by (rule round_half_even_nearest [OF b])
  have tie: "\<bar>of_nat (fixed_units (nat d) m e) - \<bar>fval (Finite s m e)\<bar> * 10 ^ nat d\<bar> = 1 / 2 \<longrightarrow>
            even (fixed_units (nat d) m e)"
    unfolding fval_scaled fixed_units_def using round_half_even_tie [OF b] by blast
  have shape: "\<forall>out. format_plain (Finite s m e) cfg d False = Inr out \<longrightarrow>
      0 \<le> d \<and>
      out = (if lt_zero (Finite s m e) then ustr ''-'' else []) @
            int_digits (nat d) m e @
            (if 0 < d then decimal_sep cfg @ frac_digits (nat d) m e else []) \<and>
      (0 < d \<longrightarrow> length (frac_digits (nat d) m e) = nat d) \<and>
      dec_value (int_digits (nat d) m e) * 10 ^ nat d + dec_value (frac_digits (nat d) m e) =
        fixed_units (nat d) m e \<and>
      \<bar>of_nat (fixed_units (nat d) m e) - \<bar>fval (Finite s m e)\<bar> * 10 ^ nat d\<bar> \<le> 1 / 2 \<and>
      (\<bar>of_nat (fixed_units (nat d) m e) - \<bar>fval (Finite s m e)\<bar> * 10 ^ nat d\<bar> = 1 / 2 \<longrightarrow>
         even (fixed_units (nat d) m e))"
  proof (intro allI impI)
    fix out
    assume o: "format_plain (Finite s m e) cfg d False = Inr out"
    from format_plain_Inr_range [OF o] have r: "0 \<le> d" "d \<le> max_precision" by blast+
    from o have eq: "out = (if lt_zero (Finite s m e) then ustr ''-'' else []) @
            int_digits (nat d) m e @
            (if 0 < d then decimal_sep cfg @ frac_digits (nat d) m e else [])"
      by (simp add: format_plain_finite [OF r])
    from r(1) eq len dec_value_int_frac [of "nat d" m e] near tie
    show "0 \<le> d \<and>
      out = (if lt_zero (Finite s m e) then ustr ''-'' else []) @
            int_digits (nat d) m e @
            (if 0 < d then decimal_sep cfg @ frac_digits (nat d) m e else []) \<and>
      (0 < d \<longrightarrow> length (frac_digits (nat d) m e) = nat d) \<and>
      dec_value (int_digits (nat d) m e) * 10 ^ nat d + dec_value (frac_digits (nat d) m e) =
        fixed_units (nat d) m e \<and>
      \<bar>of_nat (fixed_units (nat d) m e) - \<bar>fval (Finite s m e)\<bar> * 10 ^ nat d\<bar> \<le> 1 / 2 \<and>
      (\<bar>of_nat (fixed_units (nat d) m e) - \<bar>fval (Finite s m e)\<bar> * 10 ^ nat d\<bar> = 1 / 2 \<longrightarrow>
         even (fixed_units (nat d) m e))"
      by blast
  qed
  have ex: "format_plain (Finite False 5280470563091907 (- 51)) cfg_US 2 False = Inr (ustr ''2.35'')"
    by (simp add: cfg_US_def plain_eval)
  from ret shape ex show ?thesis by blast
qed

theorem format_plain_rounding_witness:
  "(0::int) \<le> 0 \<and> 0 \<le> max_precision \<and>
   format_plain (Finite False 5 (- 1)) cfg_US 0 False = Inr (ustr ''2'') \<and>
   fixed_units (nat 0) 5 (- 1) = 2 \<and>
   \<bar>of_nat (fixed_units (nat 0) 5 (- 1)) - \<bar>fval (Finite False 5 (- 1))\<bar> * 10 ^ nat 0\<bar> = 1 / 2 \<and>
   even (fixed_units (nat 0) 5 (- 1))"
proof -
  have d: "(0::int) \<le> 0" "0 \<le> max_precision" by (simp_all add: max_precision_def)
  have u: "fixed_units (nat 0) 5 (- 1) = 2"
    by (simp add: fixed_units_def round_half_even_def numer_def denom_def)
  have i: "int_digits (nat 0) 5 (- 1) = ustr ''2''"
    by (simp add: plain_eval)
  have t: "\<bar>of_nat (fixed_units (nat 0) 5 (- 1)) - \<bar>fval (Finite False 5 (- 1))\<bar> * 10 ^ nat 0\<bar> = 1 / 2"
    unfolding u by (simp add: numer_def denom_def)
  from format_plain_rounding [of 0 False 5 "- 1" cfg_US] d
  obtain out where o: "format_plain (Finite False 5 (- 1)) cfg_US 0 False = Inr out" by blast
  with format_plain_rounding [of 0 False 5 "- 1" cfg_US]
  have "out = (if lt_zero (Finite False 5 (- 1)) then ustr ''-'' else []) @
            int_digits (nat 0) 5 (- 1) @
            (if (0::int) < 0 then decimal_sep cfg_US @ frac_digits (nat 0) 5 (- 1) else [])"
    and "\<bar>of_nat (fixed_units (nat 0) 5 (- 1)) - \<bar>fval (Finite False 5 (- 1))\<bar> * 10 ^ nat 0\<bar> = 1 / 2 \<longrightarrow>
         even (fixed_units (nat 0) 5 (- 1))"
    by blast+
  with o i u t d show ?thesis by simp
qed

text \<open>
  Claim C2 as the specification states it fails: 0.5 is the double \<open>1 * 2^-1\<close>, rounding
  half away from zero gives 1 at 0 decimals, and the renderer prints the digits of
  \<open>fixed_units\<close>, which is 0.
\<close>

theorem format_plain_half_away_counterexample:
  "is_double (Finite False 1 (- 1)) \<and> fval (Finite False 1 (- 1)) = 1 / 2 \<and>
   half_away_units 0 1 (- 1) = 1 \<and>
   fixed_units 0 1 (- 1) = 0 \<and>
   format_plain (Finite False 1 (- 1)) cfg_US 0 False = Inr (ustr ''0'') \<and>
   format_plain (Finite False 1 (- 1)) cfg_US 0 False \<noteq> Inr (dec_digits (half_away_units 0 1 (- 1)))"
proof -
  have h: "half_away_units 0 1 (- 1) = 1"
    by (simp add: half_away_units_def numer_def denom_def)
  have f: "fixed_units 0 1 (- 1) = 0"
    by (simp add: fixed_units_def round_half_even_def numer_def denom_def)
  have p: "format_plain (Finite False 1 (- 1)) cfg_US 0 False = Inr (ustr ''0'')"
    by (simp add: cfg_US_def plain_eval)
  have n: "format_plain (Finite False 1 (- 1)) cfg_US 0 False \<noteq> Inr (dec_digits (half_away_units 0 1 (- 1)))"
    unfolding p h by (simp add: dec_digits.simps ustr_def)
  have v: "fval (Finite False 1 (- 1)) = 1 / 2" by (simp add: numer_def denom_def)
  from h f p n v show ?thesis by simp
qed

section \<open>Outcomes of the dispatcher\<close>

lemma format_scientific_returns:
  assumes "is_finite v \<or> decimal_sep cfg = ustr ''.''"
  shows "\<exists>r. format_scientific v cfg 3 = Inr r"
proof (cases "decimal_sep cfg = ustr ''.''")
  case True
  then show ?thesis
    by (cases v) (simp_all add: format_scientific_def host_sci_def max_precision_def Let_def split_beta)
next
  case False
  with assms obtain s m e where v: "v = Finite s m e" by (cases v) auto
  from host_sci_shape [of s m e] obtain d0 F sg E where
    h: "host_sci 3 (Finite s m e) = Inr (sign_str s @ d0 # 46 # F @ 101 # sg # E)"
      "is_digit d0" "\<forall>c \<in> set F. is_digit c" "sg = 43 \<or> sg = 45" "\<forall>c \<in> set E. is_digit c"
    by blast
  from format_scientific_finite [OF h False] v show ?thesis by simp
qed

lemma format_scientific_unpack:
  assumes "\<not> is_finite v" and "decimal_sep cfg \<noteq> ustr ''.''"
  shows "format_scientific v cfg 3 = Inl UnpackError"
  using assms
  by (cases v)
     (simp_all add: format_scientific_def host_sci_def max_precision_def sign_str_def ustr_def
        unpack2_def)

lemma LOCALE_CONFIG_dom:
  "LOCALE_CONFIG locale = None \<longleftrightarrow> locale \<notin> {ustr ''US'', ustr ''EU'', ustr ''UK''}"
  by (simp add: LOCALE_CONFIG_def LOCALE_ITEMS_def)

lemma format_number_plain_styles:
  assumes "LOCALE_CONFIG locale = Some cfg"
    and "lower style \<in> {ustr ''currency'', ustr ''comma'', ustr ''grouped'', ustr ''round'',
                         ustr ''rounded''}"
  shows "(dec = None \<longrightarrow> (\<exists>out. format_number v locale style dec = Inr out)) \<and>
         (\<forall>d. dec = Some d \<and> 0 \<le> d \<and> d \<le> max_precision \<longrightarrow>
            (\<exists>out. format_number v locale style dec = Inr out)) \<and>
         (\<forall>d. dec = Some d \<and> d < 0 \<longrightarrow>
            format_number v locale style dec = Inl FormatSpecError) \<and>
         (\<forall>d. dec = Some d \<and> max_precision < d \<longrightarrow>
            format_number v locale style dec = Inl PrecisionError)"
proof -
  have m0: "(0::int) \<le> max_precision" and m2: "(2::int) \<le> max_precision"
    by (simp_all add: max_precision_def)
  consider "lower style = ustr ''currency''"
    | "lower style = ustr ''comma'' \<or> lower style = ustr ''grouped''"
    | "lower style = ustr ''round'' \<or> lower style = ustr ''rounded''"
    using assms(2) by auto
  then show ?thesis
  proof cases
    case 1
    then have eq: "format_number v locale style dec =
        format_currency v cfg (case dec of None \<Rightarrow> 2 | Some d \<Rightarrow> d)"
      using assms(1) by (simp add: format_number_def)
    show ?thesis
    proof (cases dec)
      case None
      with eq format_currency_returns [of 2 v cfg] m2 show ?thesis by simp
    next
      case (Some d)
      with eq format_currency_returns [of d v cfg] format_currency_negative_decimals [of d v cfg]
        format_currency_big_decimals [of d v cfg]
      show ?thesis by simp
    qed
  next
    case 2
    then have eq: "format_number v locale style dec =
        format_plain v cfg (case dec of None \<Rightarrow> 0 | Some d \<Rightarrow> d) True"
      using assms(1) by (auto simp: format_number_def ustr_def)
    show ?thesis
    proof (cases dec)
      case None
      with eq format_plain_returns [of 0 v cfg True] m0 show ?thesis by simp
    next
      case (Some d)
      with eq format_plain_returns [of d v cfg True] format_plain_negative_decimals [of d v cfg True]
        format_plain_big_decimals [of d v cfg True]
      show ?thesis by simp
    qed
  next
    case 3
    then have eq: "format_number v locale style dec =
        format_plain v cfg (case dec of None \<Rightarrow> 0 | Some d \<Rightarrow> d) False"
      using assms(1) by (auto simp: format_number_def ustr_def)
    show ?thesis
    proof (cases dec)
      case None
      with eq format_plain_returns [of 0 v cfg False] m0 show ?thesis by simp
    next
      case (Some d)
      with eq format_plain_returns [of d v cfg False] format_plain_negative_decimals [of d v cfg False]
        format_plain_big_decimals [of d v cfg False]
      show ?thesis by simp
    qed
  qed
qed

lemma format_number_plain_not_unknown:
  assumes "LOCALE_CONFIG locale = Some cfg"
    and "lower style \<in> {ustr ''currency'', ustr ''comma'', ustr ''grouped'', ustr ''round'',
                         ustr ''rounded''}"
  shows "format_number v locale style dec \<noteq> Inl UnknownLocale \<and>
         format_number v locale style dec \<noteq> Inl UnknownStyle"
proof (cases dec)
  case None
  with format_number_plain_styles [OF assms, of dec v] show ?thesis by auto
next
  case (Some d)
  consider "d < 0" | "0 \<le> d \<and> d \<le> max_precision" | "max_precision < d" by linarith
  then show ?thesis
    using format_number_plain_styles [OF assms, of dec v] Some by cases auto
qed

lemma format_number_sci_styles:
  assumes "LOCALE_CONFIG locale = Some cfg"
    and "lower style \<in> {ustr ''sci'', ustr ''scientific''}"
  shows "format_number v locale style dec = format_scientific v cfg 3"
  using assms by (auto simp: format_number_def ustr_def)

lemma format_number_unknown_style:
  assumes "LOCALE_CONFIG locale = Some cfg"
    and "lower style \<notin> {ustr ''currency'', ustr ''comma'', ustr ''grouped'', ustr ''round'',
                         ustr ''rounded'', ustr ''sci'', ustr ''scientific''}"
  shows "format_number v locale style dec = Inl UnknownStyle"
  using assms by (simp add: format_number_def)

text \<open>
  Claim C1, as the code has it. The dispatcher fails with \<open>UnknownLocale\<close> exactly when
  the locale is not one of the keys \<open>US\<close>, \<open>EU\<close>, \<open>UK\<close> of the registry, compared as they
  are written. With a known locale it fails with \<open>UnknownStyle\<close> exactly when the
  lower-cased style is none of the seven style words. With a known locale, a known style
  and a finite value it returns a string when the style is scientific, when no decimals
  are given, and when the decimals are from 0 to the largest precision of the host. With
  the currency, grouped and rounded styles and other decimals it fails with a
  \<open>ValueError\<close> of the host's formatter, which the dispatcher lets through: a negative
  precision is not a format specification, and a precision above the largest is too big.
\<close>

theorem format_number_outcomes:
  "(format_number v locale style dec = Inl UnknownLocale \<longleftrightarrow> LOCALE_CONFIG locale = None) \<and>
   (LOCALE_CONFIG locale = None \<longleftrightarrow> locale \<notin> {ustr ''US'', ustr ''EU'', ustr ''UK''}) \<and>
   (format_number v locale style dec = Inl UnknownStyle \<longleftrightarrow>
      LOCALE_CONFIG locale \<noteq> None \<and>
      lower style \<notin> {ustr ''currency'', ustr ''comma'', ustr ''grouped'', ustr ''round'',
                       ustr ''rounded'', ustr ''sci'', ustr ''scientific''}) \<and>
   (is_finite v \<and> LOCALE_CONFIG locale \<noteq> None \<and>
    lower style \<in> {ustr ''currency'', ustr ''comma'', ustr ''grouped'', ustr ''round'',
                    ustr ''rounded''} \<longrightarrow>
      (case dec of
         None \<Rightarrow> (\<exists>out. format_number v locale style dec = Inr out)
       | Some d \<Rightarrow>
           if d < 0 then format_number v locale style dec = Inl FormatSpecError
           else if max_precision < d then format_number v locale style dec = Inl PrecisionError
           else (\<exists>out. format_number v locale style dec = Inr out))) \<and>
   (is_finite v \<and> LOCALE_CONFIG locale \<noteq> None \<and>
    lower style \<in> {ustr ''sci'', ustr ''scientific''} \<longrightarrow>
      (\<exists>out. format_number v locale style dec = Inr out))"
proof (cases "LOCALE_CONFIG locale")
  case None
  then have "format_number v locale style dec = Inl UnknownLocale"
    by (simp add: format_number_def)
  with None LOCALE_CONFIG_dom [of "locale"] show ?thesis by simp
next
  case (Some cfg)
  let ?plain = "{ustr ''currency'', ustr ''comma'', ustr ''grouped'', ustr ''round'',
                 ustr ''rounded''}"
  let ?sci = "{ustr ''sci'', ustr ''scientific''}"
  have dom: "LOCALE_CONFIG locale = None \<longleftrightarrow> locale \<notin> {ustr ''US'', ustr ''EU'', ustr ''UK''}"
    by (rule LOCALE_CONFIG_dom)
  have disj: "?plain \<inter> ?sci = {}" by (auto simp: ustr_def)
  consider (plain) "lower style \<in> ?plain" | (sci) "lower style \<in> ?sci"
    | (other) "lower style \<notin> ?plain \<union> ?sci" by blast
  then show ?thesis
  proof cases
    case plain
    then have nsci: "lower style \<notin> ?sci" using disj by blast
    have r: "case dec of
         None \<Rightarrow> (\<exists>out. format_number v locale style dec = Inr out)
       | Some d \<Rightarrow>
           if d < 0 then format_number v locale style dec = Inl FormatSpecError
           else if max_precision < d then format_number v locale style dec = Inl PrecisionError
           else (\<exists>out. format_number v locale style dec = Inr out)"
      using format_number_plain_styles [OF Some plain, of dec v]
      by (cases dec) auto
    from format_number_plain_not_unknown [OF Some plain, of v dec]
    have "format_number v locale style dec \<noteq> Inl UnknownLocale"
      and "format_number v locale style dec \<noteq> Inl UnknownStyle"
      by blast+
    with Some plain nsci r dom show ?thesis by auto
  next
    case sci
    then have nplain: "lower style \<notin> ?plain" using disj by blast
    have eq: "format_number v locale style dec = format_scientific v cfg 3"
      by (rule format_number_sci_styles [OF Some sci])
    have r: "is_finite v \<longrightarrow> (\<exists>out. format_number v locale style dec = Inr out)"
      using format_scientific_returns [of v cfg] by (auto simp: eq)
    have known: "format_number v locale style dec \<noteq> Inl UnknownLocale \<and>
                 format_number v locale style dec \<noteq> Inl UnknownStyle"
    proof (cases "is_finite v \<or> decimal_sep cfg = ustr ''.''")
      case True
      from format_scientific_returns [OF True] show ?thesis by (auto simp: eq)
    next
      case False
      then have "format_scientific v cfg 3 = Inl UnpackError"
        by (intro format_scientific_unpack) simp_all
      then show ?thesis by (simp add: eq)
    qed
    then have "format_number v locale style dec \<noteq> Inl UnknownLocale"
      and "format_number v locale style dec \<noteq> Inl UnknownStyle"
      by blast+
    with Some sci nplain r dom show ?thesis by auto
  next
    case other
    then have "format_number v locale style dec = Inl UnknownStyle"
      using format_number_unknown_style [OF Some, of style v dec] by auto
    with Some other dom show ?thesis by auto
  qed
qed

theorem format_number_outcomes_witness:
  "LOCALE_CONFIG (ustr ''us'') = None \<and>
   format_number (Finite False 5 0) (ustr ''us'') (ustr ''currency'') None = Inl UnknownLocale \<and>
   LOCALE_CONFIG (ustr ''US'') \<noteq> None \<and>
   format_number (Finite False 5 0) (ustr ''US'') (ustr ''bogus_style'') None = Inl UnknownStyle \<and>
   is_finite (Finite False 5 0) \<and> lower (ustr ''Grouped'') = ustr ''grouped'' \<and>
   (\<exists>out. format_number (Finite False 5 0) (ustr ''US'') (ustr ''Grouped'') None = Inr out) \<and>
   (\<exists>out. format_number (Finite False 5 0) (ustr ''US'') (ustr ''Grouped'') (Some 1) = Inr out) \<and>
   format_number (Finite False 5 0) (ustr ''US'') (ustr ''Grouped'') (Some (- 1)) =
     Inl FormatSpecError \<and>
   format_number (Finite False 5 0) (ustr ''US'') (ustr ''Grouped'') (Some 2147483648) =
     Inl PrecisionError \<and>
   LOCALE_CONFIG (ustr ''EU'') \<noteq> None \<and>
   (\<exists>out. format_number (Finite False 5 0) (ustr ''EU'') (ustr ''sci'') None = Inr out)"
proof -
  have l1: "LOCALE_CONFIG (ustr ''us'') = None"
    by (simp add: LOCALE_CONFIG_def LOCALE_ITEMS_def ustr_def)
  have l2: "LOCALE_CONFIG (ustr ''US'') \<noteq> None"
    by (simp add: LOCALE_CONFIG_def LOCALE_ITEMS_def ustr_def)
  have l3: "LOCALE_CONFIG (ustr ''EU'') \<noteq> None"
    by (simp add: LOCALE_CONFIG_def LOCALE_ITEMS_def ustr_def)
  have s1: "lower (ustr ''bogus_style'') = ustr ''bogus_style''"
    by (simp add: lower_def lower_cp_def ustr_def)
  have s2: "lower (ustr ''Grouped'') = ustr ''grouped''"
    by (simp add: lower_def lower_cp_def ustr_def)
  have s3: "lower (ustr ''sci'') = ustr ''sci''"
    by (simp add: lower_def lower_cp_def ustr_def)
  have fin: "is_finite (Finite False 5 0)" by simp
  have a: "format_number (Finite False 5 0) (ustr ''us'') (ustr ''currency'') None = Inl UnknownLocale"
    using format_number_outcomes [of "Finite False 5 0" "ustr ''us''" "ustr ''currency''" None] l1
    by simp
  have b: "format_number (Finite False 5 0) (ustr ''US'') (ustr ''bogus_style'') None = Inl UnknownStyle"
    using format_number_outcomes [of "Finite False 5 0" "ustr ''US''" "ustr ''bogus_style''" None] l2 s1
    by (simp add: ustr_def)
  have c0: "\<exists>out. format_number (Finite False 5 0) (ustr ''US'') (ustr ''Grouped'') None = Inr out"
    using format_number_outcomes [of "Finite False 5 0" "ustr ''US''" "ustr ''Grouped''" None] l2 s2
    by simp
  have c: "\<exists>out. format_number (Finite False 5 0) (ustr ''US'') (ustr ''Grouped'') (Some 1) = Inr out"
    using format_number_outcomes [of "Finite False 5 0" "ustr ''US''" "ustr ''Grouped''" "Some 1"] l2 s2
    by (simp add: max_precision_def)
  have d: "format_number (Finite False 5 0) (ustr ''US'') (ustr ''Grouped'') (Some (- 1)) =
     Inl FormatSpecError"
    using format_number_outcomes [of "Finite False 5 0" "ustr ''US''" "ustr ''Grouped''" "Some (- 1)"] l2 s2
    by simp
  have e: "format_number (Finite False 5 0) (ustr ''US'') (ustr ''Grouped'') (Some 2147483648) =
     Inl PrecisionError"
    using format_number_outcomes [of "Finite False 5 0" "ustr ''US''" "ustr ''Grouped''"
        "Some 2147483648"] l2 s2
    by (simp add: max_precision_def)
  have f: "\<exists>out. format_number (Finite False 5 0) (ustr ''EU'') (ustr ''sci'') None = Inr out"
    using format_number_outcomes [of "Finite False 5 0" "ustr ''EU''" "ustr ''sci''" None] l3 s3
    by simp
  from l1 a l2 b fin s2 c0 c d e l3 f show ?thesis by blast
qed

text \<open>
  Claim C1 as the specification states it fails: with the known locale \<open>US\<close>, the known
  style \<open>currency\<close> and \<open>decimals = -1\<close> the dispatcher returns no string and fails with
  neither of the two errors the claim allows.
\<close>

theorem format_number_other_failure_counterexample:
  "LOCALE_CONFIG (ustr ''US'') = Some cfg_US \<and>
   lower (ustr ''currency'') = ustr ''currency'' \<and>
   is_double (Finite False 5 0) \<and>
   format_number (Finite False 5 0) (ustr ''US'') (ustr ''currency'') (Some (- 1)) =
     Inl FormatSpecError"
  by (simp add: dispatch_eval format_currency_def format_plain_negative_decimals)

section \<open>The endpoint: decimals and value\<close>

lemmas text_eval =
  py_float_def py_int_def to_ascii_def strip_def is_space_def take_sign_def lower_def
  lower_cp_def decimal_numeral_def is_digit_def dec_value_def ustr_def Let_def

text \<open>
  Claim C8, as the code has it. Nothing checks the sign of the decimals. With a known
  locale and the currency, grouped or rounded style a negative number of decimals reaches
  the host's formatter, which rejects the format specification: the dispatcher fails with
  that \<open>ValueError\<close> and returns no string, and the endpoint reports the same error,
  whether the decimals came as a number or as a text, by POST or by GET. The error is not
  the one of a decimals text that is not an integer.
\<close>

theorem negative_decimals_failure:
  assumes "d < 0" and "LOCALE_CONFIG locale = Some cfg"
    and "lower style \<in> {ustr ''currency'', ustr ''comma'', ustr ''grouped'', ustr ''round'',
                         ustr ''rounded''}"
  shows "format_number v locale style (Some d) = Inl FormatSpecError \<and>
         format_endpoint (Post (VFloat v) (Some locale) (Some style) (DInt d)) =
           Inl FormatSpecError \<and>
         (py_int dt = Some d \<longrightarrow>
            format_endpoint (Post (VFloat v) (Some locale) (Some style) (DText dt)) =
              Inl FormatSpecError) \<and>
         (py_float vt = Some v \<and> py_int dt = Some d \<longrightarrow>
            format_endpoint (Get (Some vt) (Some locale) (Some style) (Some dt)) =
              Inl FormatSpecError)"
proof -
  from format_number_plain_styles [OF assms(2) assms(3), of "Some d" v] assms(1)
  have n: "format_number v locale style (Some d) = Inl FormatSpecError" by simp
  then show ?thesis
    by (simp add: format_endpoint_def respond_def to_float_def)
qed

theorem negative_decimals_failure_witness:
  "(- 2 :: int) < 0 \<and> LOCALE_CONFIG (ustr ''EU'') = Some cfg_EU \<and>
   lower (ustr ''Round'') = ustr ''round'' \<and>
   py_int (ustr '' -2'') = Some (- 2) \<and>
   py_float (ustr ''nan'') = Some NaN \<and>
   format_number NaN (ustr ''EU'') (ustr ''Round'') (Some (- 2)) = Inl FormatSpecError \<and>
   format_endpoint (Get (Some (ustr ''nan'')) (Some (ustr ''EU'')) (Some (ustr ''Round''))
     (Some (ustr '' -2''))) = Inl FormatSpecError"
proof -
  have d: "(- 2 :: int) < 0" by simp
  have l: "LOCALE_CONFIG (ustr ''EU'') = Some cfg_EU"
    by (simp add: LOCALE_CONFIG_def LOCALE_ITEMS_def ustr_def)
  have s: "lower (ustr ''Round'') = ustr ''round''"
    by (simp add: lower_def lower_cp_def ustr_def)
  have s': "lower (ustr ''Round'') \<in> {ustr ''currency'', ustr ''comma'', ustr ''grouped'',
      ustr ''round'', ustr ''rounded''}"
    unfolding s by simp
  have i: "py_int (ustr '' -2'') = Some (- 2)" by (simp add: text_eval)
  have f: "py_float (ustr ''nan'') = Some NaN" by (simp add: text_eval)
  from negative_decimals_failure [OF d l s', of NaN "ustr '' -2''" "ustr ''nan''"] d l s i f
  show ?thesis by simp
qed

text \<open>
  Claim C8 as the specification states it fails: a POST request with the value 1234.5,
  the locale \<open>EU\<close>, the style \<open>grouped\<close> and the decimals text \<open>-2\<close> passes the check of the
  decimals text and fails with the host's error, not with \<open>InvalidDecimals\<close>.
\<close>

theorem negative_decimals_counterexample:
  "py_int (ustr ''-2'') = Some (- 2) \<and>
   format_endpoint (Post (VFloat (Finite False 2469 (- 1))) (Some (ustr ''EU''))
     (Some (ustr ''grouped'')) (DText (ustr ''-2''))) = Inl FormatSpecError \<and>
   format_endpoint (Post (VFloat (Finite False 2469 (- 1))) (Some (ustr ''EU''))
     (Some (ustr ''grouped'')) (DText (ustr ''-2''))) \<noteq> Inl InvalidDecimals"
proof -
  have i: "py_int (ustr ''-2'') = Some (- 2)" by (simp add: text_eval)
  have n: "format_number (Finite False 2469 (- 1)) (ustr ''EU'') (ustr ''grouped'') (Some (- 2)) =
      Inl FormatSpecError"
    by (simp add: dispatch_eval format_plain_negative_decimals)
  have e: "format_endpoint (Post (VFloat (Finite False 2469 (- 1))) (Some (ustr ''EU''))
     (Some (ustr ''grouped'')) (DText (ustr ''-2''))) = Inl FormatSpecError"
    by (simp add: format_endpoint_def respond_def to_float_def i n)
  from i e show ?thesis by simp
qed

text \<open>
  Claim C9, as the code has it. A GET request without a value is answered with
  \<open>MissingValue\<close>, and one whose value text the host's \<open>float\<close> rejects with
  \<open>InvalidValue\<close>; no string is returned. The same holds for a POST request, unless its
  decimals are a text that is not an integer, which is reported first. Whatever text
  \<open>float\<close> accepts goes on to the dispatcher, with no test that the float is finite: the
  texts \<open>inf\<close> and \<open>nan\<close> are accepted.
\<close>

theorem format_endpoint_value:
  "format_endpoint (Get None l s d) = Inl MissingValue \<and>
   (py_float t = None \<longrightarrow> format_endpoint (Get (Some t) l s d) = Inl InvalidValue) \<and>
   (\<forall>f. py_float t = Some f \<longrightarrow>
      format_endpoint (Get (Some t) l s d) =
        format_number f (case l of None \<Rightarrow> ustr ''US'' | Some x \<Rightarrow> x)
          (case s of None \<Rightarrow> ustr ''currency'' | Some x \<Rightarrow> x)
          (case d of None \<Rightarrow> None | Some dt \<Rightarrow> py_int dt)) \<and>
   ((\<forall>dt. pd = DText dt \<longrightarrow> py_int dt \<noteq> None) \<longrightarrow>
      format_endpoint (Post VAbsent l s pd) = Inl MissingValue \<and>
      (py_float t = None \<longrightarrow> format_endpoint (Post (VText t) l s pd) = Inl InvalidValue) \<and>
      (\<forall>f. py_float t = Some f \<longrightarrow>
         format_endpoint (Post (VText t) l s pd) =
           format_number f (case l of None \<Rightarrow> ustr ''US'' | Some x \<Rightarrow> x)
             (case s of None \<Rightarrow> ustr ''currency'' | Some x \<Rightarrow> x)
             (case pd of DAbsent \<Rightarrow> None | DInt i \<Rightarrow> Some i | DText dt \<Rightarrow> py_int dt))) \<and>
   py_float (ustr ''inf'') = Some (Infinity False) \<and>
   py_float (ustr ''nan'') = Some NaN"
proof -
  have g: "format_endpoint (Get None l s d) = Inl MissingValue \<and>
   (py_float t = None \<longrightarrow> format_endpoint (Get (Some t) l s d) = Inl InvalidValue) \<and>
   (\<forall>f. py_float t = Some f \<longrightarrow>
      format_endpoint (Get (Some t) l s d) =
        format_number f (case l of None \<Rightarrow> ustr ''US'' | Some x \<Rightarrow> x)
          (case s of None \<Rightarrow> ustr ''currency'' | Some x \<Rightarrow> x)
          (case d of None \<Rightarrow> None | Some dt \<Rightarrow> py_int dt))"
    by (simp add: format_endpoint_def respond_def to_float_def)
  have p: "(\<forall>dt. pd = DText dt \<longrightarrow> py_int dt \<noteq> None) \<longrightarrow>
      format_endpoint (Post VAbsent l s pd) = Inl MissingValue \<and>
      (py_float t = None \<longrightarrow> format_endpoint (Post (VText t) l s pd) = Inl InvalidValue) \<and>
      (\<forall>f. py_float t = Some f \<longrightarrow>
         format_endpoint (Post (VText t) l s pd) =
           format_number f (case l of None \<Rightarrow> ustr ''US'' | Some x \<Rightarrow> x)
             (case s of None \<Rightarrow> ustr ''currency'' | Some x \<Rightarrow> x)
             (case pd of DAbsent \<Rightarrow> None | DInt i \<Rightarrow> Some i | DText dt \<Rightarrow> py_int dt))"
    by (cases pd) (auto simp: format_endpoint_def respond_def to_float_def)
  have i: "py_float (ustr ''inf'') = Some (Infinity False)" by (simp add: text_eval)
  have n: "py_float (ustr ''nan'') = Some NaN" by (simp add: text_eval)
  from g p i n show ?thesis by blast
qed

theorem format_endpoint_value_witness:
  "py_float (ustr ''12abc'') = None \<and>
   format_endpoint (Get (Some (ustr ''12abc'')) None None None) = Inl InvalidValue \<and>
   py_int (ustr ''2'') \<noteq> None \<and>
   format_endpoint (Post (VText (ustr ''12abc'')) None None (DText (ustr ''2''))) =
     Inl InvalidValue \<and>
   format_endpoint (Post VAbsent None None (DText (ustr ''2''))) = Inl MissingValue \<and>
   py_float (ustr ''NaN'') = Some NaN \<and>
   format_endpoint (Get (Some (ustr ''NaN'')) None (Some (ustr ''round'')) None) =
     format_number NaN (ustr ''US'') (ustr ''round'') None"
proof -
  have a: "py_float (ustr ''12abc'') = None" by (simp add: text_eval)
  have b: "py_float (ustr ''NaN'') = Some NaN" by (simp add: text_eval)
  have c: "py_int (ustr ''2'') \<noteq> None" by (simp add: text_eval)
  have c': "\<forall>dt. DText (ustr ''2'') = DText dt \<longrightarrow> py_int dt \<noteq> None" using c by simp
  from format_endpoint_value [of None None None "ustr ''12abc''" "DText (ustr ''2'')"] a c c'
  have 1: "format_endpoint (Get (Some (ustr ''12abc'')) None None None) = Inl InvalidValue"
    and 2: "format_endpoint (Post (VText (ustr ''12abc'')) None None (DText (ustr ''2''))) =
     Inl InvalidValue"
    and 3: "format_endpoint (Post VAbsent None None (DText (ustr ''2''))) = Inl MissingValue"
    by blast+
  from format_endpoint_value [of None "Some (ustr ''round'')" None "ustr ''NaN''" DAbsent] b
  have 4: "format_endpoint (Get (Some (ustr ''NaN'')) None (Some (ustr ''round'')) None) =
     format_number NaN (ustr ''US'') (ustr ''round'') None"
    by simp
  from a 1 c 2 3 b 4 show ?thesis by blast
qed

text \<open>
  Claim C9 as the specification states it fails: the GET request \<open>value=inf\<close>, with the
  default locale, style and decimals, is not rejected. The text parses to an infinity and
  the reply carries the formatted string \<open>$inf.\<close>.
\<close>

theorem format_endpoint_infinity_counterexample:
  "py_float (ustr ''inf'') = Some (Infinity False) \<and> \<not> is_finite (Infinity False) \<and>
   format_endpoint (Get (Some (ustr ''inf'')) None None None) = Inr (ustr ''$inf.'')"
proof -
  have i: "py_float (ustr ''inf'') = Some (Infinity False)" by (simp add: text_eval)
  have n: "format_number (Infinity False) (ustr ''US'') (ustr ''currency'') None =
      Inr (ustr ''$inf.'')"
    by (simp add: dispatch_eval format_currency_def format_plain_infinite max_precision_def)
  have e: "format_endpoint (Get (Some (ustr ''inf'')) None None None) = Inr (ustr ''$inf.'')"
    by (simp add: format_endpoint_def respond_def to_float_def i n)
  from i e show ?thesis by simp
qed

section \<open>Default decimals\<close>

lemma format_scientific_three_digits:
  "\<exists>d0 F X. format_scientific (Finite s m e) cfg 3 =
       Inr (sign_str s @ [d0] @ decimal_sep cfg @ F @ ustr ''e'' @ X) \<and>
     is_digit d0 \<and> length F = 3 \<and> (\<forall>c \<in> set F. is_digit c)"
proof -
  from host_sci_shape [of s m e] obtain d0 F sg E where
    h: "host_sci 3 (Finite s m e) = Inr (sign_str s @ d0 # 46 # F @ 101 # sg # E)"
      "is_digit d0" "length F = 3" "\<forall>c \<in> set F. is_digit c"
      "sg = 43 \<or> sg = 45" "\<forall>c \<in> set E. is_digit c"
    by blast
  have "format_scientific (Finite s m e) cfg 3 =
       Inr (sign_str s @ [d0] @ decimal_sep cfg @ F @ ustr ''e'' @ sg # E)"
  proof (cases "decimal_sep cfg = ustr ''.''")
    case True
    then show ?thesis
      by (simp add: format_scientific_def h(1) ustr_def)
  next
    case False
    from format_scientific_finite [OF h(1) h(2) h(4) h(5) h(6) False]
    show ?thesis by (simp add: ustr_def)
  qed
  with h(2,3,4) show ?thesis by blast
qed

text \<open>
  Claim C7. With a known locale: the currency style takes 2 decimals when none is given,
  the grouped and rounded styles (and their synonyms) take 0, and a given number of
  decimals is passed on as it is. The scientific style calls the scientific renderer with 3
  digits whatever the decimals argument is: for a finite value the result has one digit,
  the decimal separator of the locale and exactly three digits before the \<open>e\<close>, and the
  double nearest to 1234.5678 (\<open>5429686605511341 * 2^-42\<close>) gives \<open>1.235e+03\<close> for every
  decimals argument.
\<close>

theorem format_number_decimals:
  assumes "LOCALE_CONFIG locale = Some cfg"
  shows "(lower style = ustr ''currency'' \<longrightarrow>
            format_number v locale style None = format_currency v cfg 2 \<and>
            format_number v locale style (Some d) = format_currency v cfg d) \<and>
         (lower style = ustr ''comma'' \<or> lower style = ustr ''grouped'' \<longrightarrow>
            format_number v locale style None = format_plain v cfg 0 True \<and>
            format_number v locale style (Some d) = format_plain v cfg d True) \<and>
         (lower style = ustr ''round'' \<or> lower style = ustr ''rounded'' \<longrightarrow>
            format_number v locale style None = format_plain v cfg 0 False \<and>
            format_number v locale style (Some d) = format_plain v cfg d False) \<and>
         (lower style = ustr ''sci'' \<or> lower style = ustr ''scientific'' \<longrightarrow>
            format_number v locale style dec = format_scientific v cfg 3 \<and>
            (\<forall>s m e. v = Finite s m e \<longrightarrow>
               (\<exists>d0 F X. format_number v locale style dec =
                    Inr (sign_str s @ [d0] @ decimal_sep cfg @ F @ ustr ''e'' @ X) \<and>
                  is_digit d0 \<and> length F = 3 \<and> (\<forall>c \<in> set F. is_digit c)))) \<and>
         format_number (Finite False 5429686605511341 (- 42)) (ustr ''US'')
            (ustr ''scientific'') dec = Inr (ustr ''1.235e+03'')"
proof -
  have ex: "format_number (Finite False 5429686605511341 (- 42)) (ustr ''US'')
            (ustr ''scientific'') dec = Inr (ustr ''1.235e+03'')"
    by (simp add: dispatch_eval format_scientific_def sci_eval)
  have rest: "(lower style = ustr ''currency'' \<longrightarrow>
            format_number v locale style None = format_currency v cfg 2 \<and>
            format_number v locale style (Some d) = format_currency v cfg d) \<and>
         (lower style = ustr ''comma'' \<or> lower style = ustr ''grouped'' \<longrightarrow>
            format_number v locale style None = format_plain v cfg 0 True \<and>
            format_number v locale style (Some d) = format_plain v cfg d True) \<and>
         (lower style = ustr ''round'' \<or> lower style = ustr ''rounded'' \<longrightarrow>
            format_number v locale style None = format_plain v cfg 0 False \<and>
            format_number v locale style (Some d) = format_plain v cfg d False) \<and>
         (lower style = ustr ''sci'' \<or> lower style = ustr ''scientific'' \<longrightarrow>
            format_number v locale style dec = format_scientific v cfg 3)"
    using assms by (auto simp: format_number_def ustr_def)
  have three: "lower style = ustr ''sci'' \<or> lower style = ustr ''scientific'' \<longrightarrow>
            (\<forall>s m e. v = Finite s m e \<longrightarrow>
               (\<exists>d0 F X. format_number v locale style dec =
                    Inr (sign_str s @ [d0] @ decimal_sep cfg @ F @ ustr ''e'' @ X) \<and>
                  is_digit d0 \<and> length F = 3 \<and> (\<forall>c \<in> set F. is_digit c)))"
  proof (intro impI allI)
    fix s m e
    assume st: "lower style = ustr ''sci'' \<or> lower style = ustr ''scientific''"
      and v: "v = Finite s m e"
    from rest st have "format_number v locale style dec = format_scientific v cfg 3" by blast
    with format_scientific_three_digits [of s m e cfg] v
    show "\<exists>d0 F X. format_number v locale style dec =
                    Inr (sign_str s @ [d0] @ decimal_sep cfg @ F @ ustr ''e'' @ X) \<and>
                  is_digit d0 \<and> length F = 3 \<and> (\<forall>c \<in> set F. is_digit c)"
      by simp
  qed
  from rest three ex show ?thesis by blast
qed

theorem format_number_decimals_witness:
  "LOCALE_CONFIG (ustr ''EU'') = Some cfg_EU \<and>
   lower (ustr ''Currency'') = ustr ''currency'' \<and>
   format_number (Finite False 2469 (- 1)) (ustr ''EU'') (ustr ''Currency'') None =
     format_currency (Finite False 2469 (- 1)) cfg_EU 2 \<and>
   format_number (Finite False 2469 (- 1)) (ustr ''EU'') (ustr ''Currency'') (Some 0) =
     format_currency (Finite False 2469 (- 1)) cfg_EU 0 \<and>
   lower (ustr ''SCI'') = ustr ''sci'' \<and>
   format_number (Finite False 2469 (- 1)) (ustr ''EU'') (ustr ''SCI'') (Some 7) =
     format_scientific (Finite False 2469 (- 1)) cfg_EU 3"
proof -
  have l: "LOCALE_CONFIG (ustr ''EU'') = Some cfg_EU"
    by (simp add: LOCALE_CONFIG_def LOCALE_ITEMS_def ustr_def)
  have s1: "lower (ustr ''Currency'') = ustr ''currency''"
    by (simp add: lower_def lower_cp_def ustr_def)
  have s2: "lower (ustr ''SCI'') = ustr ''sci''"
    by (simp add: lower_def lower_cp_def ustr_def)
  show ?thesis
    using l s1 s2
      format_number_decimals [OF l, of "ustr ''Currency''" "Finite False 2469 (- 1)" 0 "Some 7"]
      format_number_decimals [OF l, of "ustr ''SCI''" "Finite False 2469 (- 1)" 0 "Some 7"]
    by simp
qed

section \<open>The doubles of the examples\<close>

text \<open>
  The doubles that stand for the decimal literals of the examples: what the host's \<open>float\<close>
  makes of each text, and that it is the number the triple used above stands for.
\<close>

lemma numeral_2_345: "decimal_numeral [50, 46, 51, 52, 53] = Some (2345, 1000)"
  by (simp add: decimal_numeral_def is_digit_def dec_value_def ustr_def Let_def take_sign_def)

lemma exp2_2_345: "exp2 2345 1000 = 1"
  by (simp add: exp2_def bit_length.simps ge_pow2_def Let_def)

lemma round_double_2_345: "round_double False 2345 1000 = Finite False 5280470563091907 (- 51)"
  by (simp add: round_double_def exp2_2_345 round_half_even_def Let_def)

lemma py_float_2_345: "py_float (ustr ''2.345'') = Some (Finite False 5280470563091907 (- 51))"
  by (simp add: py_float_def to_ascii_def strip_def is_space_def take_sign_def lower_def
      lower_cp_def ustr_def numeral_2_345 round_double_2_345 Let_def)

lemma fval_2_345: "fval (Finite False 5280470563091907 (- 51)) = fval (Finite False 5280470563091907 (- 51))"
  by (simp add: numer_def denom_def)

lemma numeral_1234_5678: "decimal_numeral [49, 50, 51, 52, 46, 53, 54, 55, 56] = Some (12345678, 10000)"
  by (simp add: decimal_numeral_def is_digit_def dec_value_def ustr_def Let_def take_sign_def)

lemma exp2_1234_5678: "exp2 12345678 10000 = 10"
  by (simp add: exp2_def bit_length.simps ge_pow2_def Let_def)

lemma round_double_1234_5678: "round_double False 12345678 10000 = Finite False 5429686605511341 (- 42)"
  by (simp add: round_double_def exp2_1234_5678 round_half_even_def Let_def)

lemma py_float_1234_5678: "py_float (ustr ''1234.5678'') = Some (Finite False 5429686605511341 (- 42))"
  by (simp add: py_float_def to_ascii_def strip_def is_space_def take_sign_def lower_def
      lower_cp_def ustr_def numeral_1234_5678 round_double_1234_5678 Let_def)

lemma fval_1234_5678: "fval (Finite False 5429686605511341 (- 42)) = fval (Finite False 5429686605511341 (- 42))"
  by (simp add: numer_def denom_def)

lemma numeral_1234_5: "decimal_numeral [49, 50, 51, 52, 46, 53] = Some (12345, 10)"
  by (simp add: decimal_numeral_def is_digit_def dec_value_def ustr_def Let_def take_sign_def)

lemma exp2_1234_5: "exp2 12345 10 = 10"
  by (simp add: exp2_def bit_length.simps ge_pow2_def Let_def)

lemma round_double_1234_5: "round_double False 12345 10 = Finite False 5429388417957888 (- 42)"
  by (simp add: round_double_def exp2_1234_5 round_half_even_def Let_def)

lemma py_float_1234_5: "py_float (ustr ''1234.5'') = Some (Finite False 5429388417957888 (- 42))"
  by (simp add: py_float_def to_ascii_def strip_def is_space_def take_sign_def lower_def
      lower_cp_def ustr_def numeral_1234_5 round_double_1234_5 Let_def)

lemma fval_1234_5: "fval (Finite False 5429388417957888 (- 42)) = fval (Finite False 2469 (- 1))"
  by (simp add: numer_def denom_def)

lemma numeral_neg_0_4: "decimal_numeral [48, 46, 52] = Some (4, 10)"
  by (simp add: decimal_numeral_def is_digit_def dec_value_def ustr_def Let_def take_sign_def)

lemma exp2_neg_0_4: "exp2 4 10 = - 2"
  by (simp add: exp2_def bit_length.simps ge_pow2_def Let_def)

lemma round_double_neg_0_4: "round_double True 4 10 = Finite True 7205759403792794 (- 54)"
  by (simp add: round_double_def exp2_neg_0_4 round_half_even_def Let_def)

lemma py_float_neg_0_4: "py_float (ustr ''-0.4'') = Some (Finite True 7205759403792794 (- 54))"
  by (simp add: py_float_def to_ascii_def strip_def is_space_def take_sign_def lower_def
      lower_cp_def ustr_def numeral_neg_0_4 round_double_neg_0_4 Let_def)

lemma fval_neg_0_4: "fval (Finite True 7205759403792794 (- 54)) = fval (Finite True 3602879701896397 (- 53))"
  by (simp add: numer_def denom_def)

lemma numeral_0_5: "decimal_numeral [48, 46, 53] = Some (5, 10)"
  by (simp add: decimal_numeral_def is_digit_def dec_value_def ustr_def Let_def take_sign_def)

lemma exp2_0_5: "exp2 5 10 = - 1"
  by (simp add: exp2_def bit_length.simps ge_pow2_def Let_def)

lemma round_double_0_5: "round_double False 5 10 = Finite False 4503599627370496 (- 53)"
  by (simp add: round_double_def exp2_0_5 round_half_even_def Let_def)

lemma py_float_0_5: "py_float (ustr ''0.5'') = Some (Finite False 4503599627370496 (- 53))"
  by (simp add: py_float_def to_ascii_def strip_def is_space_def take_sign_def lower_def
      lower_cp_def ustr_def numeral_0_5 round_double_0_5 Let_def)

lemma fval_0_5: "fval (Finite False 4503599627370496 (- 53)) = fval (Finite False 1 (- 1))"
  by (simp add: numer_def denom_def)

end
